theory Spec2Isabelle
  imports Main "HOL-Library.AList"
begin

section \<open>The batch capture script \<open>m_save_output.py\<close>\<close>

text \<open>
  The script drives three collaborators that live in the \<open>securecrt_tools\<close> package: a
  script object (device list, operator prompts, settings store), a session object (all
  terminal traffic) and the file system (the failure log). What these do is taken as a
  parameter \<open>env\<close>; what the script does with them is translated line by line. Every
  collaborator call is appended to a trace together with its outcome, so that the order
  of calls can be stated. Calls to the debug logger are left out.
\<close>

subsection \<open>Data\<close>

text \<open>
  The exception classes the script names: \<open>sessions.ConnectError\<close>,
  \<open>sessions.InteractionError\<close> (two unrelated classes, each carrying a message) and
  \<open>scripts.ScriptError\<close>. \<open>OtherError\<close> stands for any exception that no \<open>except\<close>
  clause of the script catches.
\<close>

datatype exn =
    ConnectError string
  | InteractionError string
  | ScriptError string
  | OtherError string

text \<open>One row of the device list: the five keys the loop reads.\<close>

record device =
  hostname :: string
  protocol :: string
  username :: string
  password :: string
  enable :: string

text \<open>
  The collaborator calls of the script, with their arguments. \<open>PromptWindow msg hide\<close> is
  \<open>script.prompt_window(msg, hide_input=hide)\<close>; \<open>CreateOutputFilename desc inc\<close> is
  \<open>session.create_output_filename(desc, include_hostname=inc)\<close>, with \<open>None\<close> when the
  keyword is not passed.
\<close>

datatype call =
    GetMainSession
  | IsConnected
  | ImportDeviceList
  | PromptWindow string bool
  | SettingsGetBoolean string string
  | SettingsGet string string
  | SettingsUpdate string string string
  | CreateOutputFilename string "bool option"
  | ConnectSsh string string string "string list"
  | SshViaJump string string string
  | TelnetViaJump string string string
  | Connect string string string string
  | DisconnectViaJump
  | Disconnect
  | StartCiscoSession string
  | WriteOutputToFile string string
  | EndCiscoSession

type_synonym event = "call \<times> exn option"

text \<open>
  The world outside the script. \<open>env_raises\<close> decides, from the calls made so far,
  whether a session call returns (\<open>None\<close>) or raises; \<open>env_filename\<close> is the name that
  \<open>create_output_filename\<close> returns; \<open>env_prompt\<close> is what the operator types.
\<close>

record env =
  env_script_name :: string
  env_connected :: bool
  env_devices :: "device list"
  env_prompt :: "string \<Rightarrow> bool \<Rightarrow> string"
  env_use_jumpbox :: bool
  env_filename :: "event list \<Rightarrow> string \<Rightarrow> bool option \<Rightarrow> string"
  env_raises :: "event list \<Rightarrow> call \<Rightarrow> exn option"

text \<open>
  What the script changes: the trace of calls, the settings store (section and option to
  value), the output files written (name and the command whose output they hold), the
  lines appended to files opened in append mode (file name and line), and the local
  variable \<open>jump_connected\<close> of \<open>script_main\<close>.
\<close>

record state =
  trace :: "event list"
  settings :: "((string \<times> string) \<times> string) list"
  files :: "(string \<times> string) list"
  faillog :: "(string \<times> string) list"
  jump_connected :: bool

text \<open>
  The local variables of \<open>script_main\<close> that the device loop reads. When the jump box
  is not in use the four jump-box variables are never bound and never read.
\<close>

record locals =
  send_cmd :: string
  use_jumpbox :: bool
  jumpbox :: string
  j_username :: string
  j_password :: string
  j_ending :: string
  failed_log :: string

subsection \<open>String helpers\<close>

text \<open>\<open>str.lower()\<close> and \<open>str.strip()\<close> of Python 2 on byte strings, and \<open>sub in s\<close>.\<close>

definition lower_char :: "char \<Rightarrow> char" where
  "lower_char c =
     (if (65::nat) \<le> of_char c \<and> of_char c \<le> (90::nat)
      then char_of (of_char c + (32::nat)) else c)"

definition lower :: "string \<Rightarrow> string" where
  "lower s = map lower_char s"

definition is_space :: "char \<Rightarrow> bool" where
  "is_space c = (of_char c \<in> {32::nat, 9, 10, 11, 12, 13})"

definition strip :: "string \<Rightarrow> string" where
  "strip s = rev (dropWhile is_space (rev (dropWhile is_space s)))"

fun starts_with :: "string \<Rightarrow> string \<Rightarrow> bool" where
  "starts_with [] s = True"
| "starts_with (p # ps) [] = False"
| "starts_with (p # ps) (c # cs) = (p = c \<and> starts_with ps cs)"

fun contains :: "string \<Rightarrow> string \<Rightarrow> bool" where
  "contains sub [] = (sub = [])"
| "contains sub (c # cs) = (starts_with sub (c # cs) \<or> contains sub cs)"

definition newline :: string where
  "newline = [char_of (10::nat)]"

text \<open>\<open>script_name.split(".")[0]\<close>: the text before the first dot.\<close>

definition before_dot :: "string \<Rightarrow> string" where
  "before_dot s = takeWhile (\<lambda>c. c \<noteq> CHR ''.'') s"

subsection \<open>Calls and sequencing\<close>

text \<open>
  A computation returns the state it reached and the exception it raised, if any.
  \<open>and_then\<close> is sequencing of statements: the rest runs only when nothing was raised.
\<close>

type_synonym result = "state \<times> exn option"

fun and_then :: "result \<Rightarrow> (state \<Rightarrow> result) \<Rightarrow> result" where
  "and_then (st, None) f = f st"
| "and_then (st, Some e) f = (st, Some e)"

text \<open>A call on the script object or its settings: recorded, never raising.\<close>

definition note_call :: "call \<Rightarrow> state \<Rightarrow> state" where
  "note_call c st = st\<lparr>trace := trace st @ [(c, None)]\<rparr>"

text \<open>A call on the session: recorded with the outcome the world gives it.\<close>

definition session_call :: "env \<Rightarrow> call \<Rightarrow> state \<Rightarrow> result" where
  "session_call en c st =
     (let r = env_raises en (trace st) c
      in (st\<lparr>trace := trace st @ [(c, r)]\<rparr>, r))"

text \<open>
  Modelled from the spec: \<open>session.write_output_to_file\<close> is not in the source; the spec
  says it writes the command output to the named file. A call that returns has written
  the file; a call that raises is recorded in the trace only.
\<close>

definition write_output_to_file :: "env \<Rightarrow> string \<Rightarrow> string \<Rightarrow> state \<Rightarrow> result" where
  "write_output_to_file en cmd fname st =
     and_then (session_call en (WriteOutputToFile cmd fname) st)
       (\<lambda>s. (s\<lparr>files := files s @ [(fname, cmd)]\<rparr>, None))"

text \<open>\<open>with open(f, 'a') as logfile: logfile.write(line)\<close>\<close>

definition append_line :: "string \<Rightarrow> string \<Rightarrow> state \<Rightarrow> state" where
  "append_line f line st = st\<lparr>faillog := faillog st @ [(f, line)]\<rparr>"

text \<open>
  Modelled from the spec: the settings store of the script object is not in the source; the
  spec calls it a persisted key/value store with \<open>get\<close> and \<open>update\<close>. \<open>get\<close> reads
  the value stored under section and option, if any; \<open>update\<close> stores one, and is recorded
  in the trace.
\<close>

definition settings_get :: "string \<Rightarrow> string \<Rightarrow> state \<Rightarrow> string option" where
  "settings_get sec opt st = map_of (settings st) (sec, opt)"

definition settings_update_call :: "string \<Rightarrow> string \<Rightarrow> string \<Rightarrow> state \<Rightarrow> state" where
  "settings_update_call sec opt v st =
     (note_call (SettingsUpdate sec opt v) st)
       \<lparr>settings := AList.update (sec, opt) v (settings st)\<rparr>"

text \<open>Python's \<open>not v\<close> for a setting: absent or the empty string.\<close>

definition missing :: "string option \<Rightarrow> bool" where
  "missing v = (v = None \<or> v = Some [])"

definition value_of :: "string option \<Rightarrow> string" where
  "value_of v = (case v of None \<Rightarrow> [] | Some s \<Rightarrow> s)"

subsection \<open>\<open>per_device_work\<close>\<close>

definition per_device_work :: "env \<Rightarrow> string \<Rightarrow> string \<Rightarrow> state \<Rightarrow> result" where
  "per_device_work en enable_pass cmd st =
     and_then (session_call en (StartCiscoSession enable_pass) st) (\<lambda>s1.
     and_then (session_call en (CreateOutputFilename cmd None) s1) (\<lambda>s2.
       let full_file_name = env_filename en (trace s1) cmd None in
     and_then (write_output_to_file en cmd full_file_name s2) (\<lambda>s3.
     session_call en EndCiscoSession s3)))"

subsection \<open>The device loop of \<open>script_main\<close>\<close>

text \<open>The two log lines of the handlers.\<close>

definition connect_failed_line :: "string \<Rightarrow> string \<Rightarrow> string" where
  "connect_failed_line host msg =
     ''Connect to '' @ host @ '' failed: '' @ strip msg @ newline"

definition failure_on_line :: "string \<Rightarrow> string \<Rightarrow> string" where
  "failure_on_line host msg = ''Failure on '' @ host @ '': '' @ strip msg @ newline"

text \<open>
  The \<open>try\<close> block of a jump-box branch; \<open>tunnel\<close> is the \<open>ssh_via_jump\<close> or the
  \<open>telnet_via_jump\<close> call of the branch.
\<close>

definition jump_try :: "env \<Rightarrow> locals \<Rightarrow> call \<Rightarrow> device \<Rightarrow> state \<Rightarrow> result" where
  "jump_try en lv tunnel d st =
     and_then
       (if \<not> jump_connected st
        then and_then
               (session_call en
                  (ConnectSsh (jumpbox lv) (j_username lv) (j_password lv) [j_ending lv]) st)
               (\<lambda>s. (s\<lparr>jump_connected := True\<rparr>, None))
        else (st, None)) (\<lambda>s1.
     and_then (session_call en tunnel s1) (\<lambda>s2.
     and_then (per_device_work en (enable d) (send_cmd lv) s2) (\<lambda>s3.
     session_call en DisconnectViaJump s3)))"

text \<open>
  The \<open>except (sessions.ConnectError, sessions.InteractionError)\<close> clause of a jump-box
  branch. An exception of another class, and one raised by the handler's own
  \<open>disconnect\<close>, leave \<open>script_main\<close>.
\<close>

fun jump_except :: "env \<Rightarrow> locals \<Rightarrow> device \<Rightarrow> result \<Rightarrow> result" where
  "jump_except en lv d (s, None) = (s, None)"
| "jump_except en lv d (s, Some (ConnectError m)) =
     and_then
       (session_call en Disconnect
          (append_line (failed_log lv) (connect_failed_line (hostname d) m) s))
       (\<lambda>s'. (s'\<lparr>jump_connected := False\<rparr>, None))"
| "jump_except en lv d (s, Some (InteractionError m)) =
     and_then
       (session_call en Disconnect
          (append_line (failed_log lv) (connect_failed_line (hostname d) m) s))
       (\<lambda>s'. (s'\<lparr>jump_connected := False\<rparr>, None))"
| "jump_except en lv d (s, Some e) = (s, Some e)"

text \<open>The \<open>try\<close> block and the two \<open>except\<close> clauses of the direct branch.\<close>

definition direct_try :: "env \<Rightarrow> locals \<Rightarrow> device \<Rightarrow> state \<Rightarrow> result" where
  "direct_try en lv d st =
     and_then
       (session_call en (Connect (hostname d) (username d) (password d) (protocol d)) st)
       (\<lambda>s1.
     and_then (per_device_work en (enable d) (send_cmd lv) s1) (\<lambda>s2.
     session_call en Disconnect s2))"

fun direct_except :: "locals \<Rightarrow> device \<Rightarrow> result \<Rightarrow> result" where
  "direct_except lv d (s, None) = (s, None)"
| "direct_except lv d (s, Some (ConnectError m)) =
     (append_line (failed_log lv) (connect_failed_line (hostname d) m) s, None)"
| "direct_except lv d (s, Some (InteractionError m)) =
     (append_line (failed_log lv) (failure_on_line (hostname d) m) s, None)"
| "direct_except lv d (s, Some e) = (s, Some e)"

text \<open>The body of \<open>for device in device_list\<close>.\<close>

definition device_step :: "env \<Rightarrow> locals \<Rightarrow> state \<Rightarrow> device \<Rightarrow> result" where
  "device_step en lv st d =
     (if use_jumpbox lv then
        if contains ''ssh'' (lower (protocol d)) then
          jump_except en lv d
            (jump_try en lv (SshViaJump (hostname d) (username d) (password d)) d st)
        else if lower (protocol d) = ''telnet'' then
          jump_except en lv d
            (jump_try en lv (TelnetViaJump (hostname d) (username d) (password d)) d st)
        else (st, None)
      else direct_except lv d (direct_try en lv d st))"

fun device_loop :: "env \<Rightarrow> locals \<Rightarrow> state \<Rightarrow> device list \<Rightarrow> result" where
  "device_loop en lv st [] = (st, None)"
| "device_loop en lv st (d # ds) =
     (case device_step en lv st d of
        (s, None) \<Rightarrow> device_loop en lv s ds
      | (s, Some e) \<Rightarrow> (s, Some e))"

subsection \<open>\<open>script_main\<close>\<close>

text \<open>The jump-box section: the three settings, the prompts and the write-backs.\<close>

definition jump_box_section :: "env \<Rightarrow> string \<Rightarrow> state \<Rightarrow> state \<times> locals" where
  "jump_box_section en cmd st0 =
     (let s1 = note_call (SettingsGet ''Global'' ''jumpbox_host'') st0;
          jb0 = settings_get ''Global'' ''jumpbox_host'' st0;
          s2 = note_call (SettingsGet ''Global'' ''jumpbox_user'') s1;
          ju0 = settings_get ''Global'' ''jumpbox_user'' s1;
          s3 = note_call (SettingsGet ''Global'' ''jumpbox_prompt_end'') s2;
          je0 = settings_get ''Global'' ''jumpbox_prompt_end'' s2;
          jb = (if missing jb0
                then env_prompt en ''Enter the HOSTNAME or IP for the jumpbox'' False
                else value_of jb0);
          s4 = (if missing jb0
                then settings_update_call ''Global'' ''jumpbox_host'' jb
                       (note_call
                          (PromptWindow ''Enter the HOSTNAME or IP for the jumpbox'' False) s3)
                else s3);
          ju = (if missing ju0
                then env_prompt en (''JUMPBOX: Enter the USERNAME for '' @ jb) False
                else value_of ju0);
          s5 = (if missing ju0
                then settings_update_call ''Global'' ''jumpbox_user'' ju
                       (note_call
                          (PromptWindow (''JUMPBOX: Enter the USERNAME for '' @ jb) False) s4)
                else s4);
          jp = env_prompt en (''JUMPBOX: Enter the PASSWORD for '' @ ju) True;
          s6 = note_call (PromptWindow (''JUMPBOX: Enter the PASSWORD for '' @ ju) True) s5;
          je = (if missing je0
                then env_prompt en ''Enter the last character of the jumpbox CLI prompt'' False
                else value_of je0);
          s7 = (if missing je0
                then settings_update_call ''Global'' ''jumpbox_prompt_end'' je
                       (note_call
                          (PromptWindow
                             ''Enter the last character of the jumpbox CLI prompt'' False) s6)
                else s6)
      in (s7, \<lparr>send_cmd = cmd, use_jumpbox = True, jumpbox = jb, j_username = ju,
               j_password = jp, j_ending = je, failed_log = []\<rparr>))"

definition no_jump_box :: "string \<Rightarrow> locals" where
  "no_jump_box cmd =
     \<lparr>send_cmd = cmd, use_jumpbox = False, jumpbox = [], j_username = [],
      j_password = [], j_ending = [], failed_log = []\<rparr>"

text \<open>After the loop: \<open>if jump_connected: session.disconnect()\<close>.\<close>

definition final_disconnect :: "env \<Rightarrow> state \<Rightarrow> result" where
  "final_disconnect en st =
     (if jump_connected st then session_call en Disconnect st else (st, None))"

text \<open>The device connect loop, from \<open>jump_connected = False\<close> to the final disconnect.\<close>

definition connect_loop :: "env \<Rightarrow> locals \<Rightarrow> state \<Rightarrow> result" where
  "connect_loop en lv0 st0 =
     (let s1 = st0\<lparr>jump_connected := False\<rparr>;
          log_desc = before_dot (env_script_name en) @ ''-LOG''
      in and_then (session_call en (CreateOutputFilename log_desc (Some False)) s1) (\<lambda>s2.
         let lv = lv0\<lparr>failed_log := env_filename en (trace s1) log_desc (Some False)\<rparr>
         in and_then (device_loop en lv s2 (env_devices en)) (final_disconnect en)))"

definition script_main :: "env \<Rightarrow> state \<Rightarrow> result" where
  "script_main en st0 =
     (let s1 = note_call IsConnected (note_call GetMainSession st0)
      in if env_connected en
         then (s1, Some (ScriptError ''This script must be launched in a not-connected tab.''))
         else
           let s2 = note_call ImportDeviceList s1
           in if env_devices en = [] then (s2, None)
              else
                let cmd = env_prompt en ''Enter the command to capture on each device.'' False;
                    s3 = note_call
                           (PromptWindow ''Enter the command to capture on each device.'' False)
                           s2
                in if cmd = [] then (s3, None)
                   else
                     let s4 = note_call (SettingsGetBoolean ''Global'' ''use_jumpbox'') s3
                     in if env_use_jumpbox en
                        then (case jump_box_section en cmd s4 of
                                (s5, lv) \<Rightarrow> connect_loop en lv s5)
                        else connect_loop en (no_jump_box cmd) s4)"

subsection \<open>Observations on traces\<close>

text \<open>The calls a computation added to the trace.\<close>

definition events_since :: "state \<Rightarrow> state \<Rightarrow> event list" where
  "events_since st s = drop (length (trace st)) (trace s)"

text \<open>The first call of a list that raised, with its exception.\<close>

fun first_failure :: "event list \<Rightarrow> (call \<times> exn) option" where
  "first_failure [] = None"
| "first_failure ((c, None) # evs) = first_failure evs"
| "first_failure ((c, Some e) # evs) = Some (c, e)"

text \<open>The calls that open a connection: direct, to the jump box, or through it.\<close>

fun is_connection_attempt :: "call \<Rightarrow> bool" where
  "is_connection_attempt (ConnectSsh h u p es) = True"
| "is_connection_attempt (SshViaJump h u p) = True"
| "is_connection_attempt (TelnetViaJump h u p) = True"
| "is_connection_attempt (Connect h u p pr) = True"
| "is_connection_attempt c = False"

definition connection_attempts :: "event list \<Rightarrow> event list" where
  "connection_attempts evs = filter (\<lambda>ev. is_connection_attempt (fst ev)) evs"

text \<open>The output files that a list of events has written: one for each write that returned.\<close>

fun written :: "event list \<Rightarrow> (string \<times> string) list" where
  "written [] = []"
| "written ((WriteOutputToFile cmd f, None) # evs) = (f, cmd) # written evs"
| "written (ev # evs) = written evs"

text \<open>The jump-box connections among a list of events.\<close>

fun is_jump_box_connect :: "call \<Rightarrow> bool" where
  "is_jump_box_connect (ConnectSsh h u p es) = True"
| "is_jump_box_connect c = False"

definition jump_box_connects :: "event list \<Rightarrow> event list" where
  "jump_box_connects evs = filter (\<lambda>ev. is_jump_box_connect (fst ev)) evs"

text \<open>
  The calls of a device's \<open>try\<close> block, in order. \<open>attempted\<close> says that the loop body has
  a branch for the device; \<open>connect_calls\<close> are the calls that reach the device,
  \<open>work_calls\<close> the four calls of \<open>per_device_work\<close> started at trace \<open>tr\<close>,
  \<open>output_name\<close> the file name that \<open>create_output_filename\<close> returns there, and
  \<open>closing_call\<close> the last call of the block.
\<close>

definition attempted :: "locals \<Rightarrow> device \<Rightarrow> bool" where
  "attempted lv d =
     (\<not> use_jumpbox lv \<or> contains ''ssh'' (lower (protocol d)) \<or>
      lower (protocol d) = ''telnet'')"

definition ok :: "call \<Rightarrow> event" where
  "ok c = (c, None)"

definition jump_box_call :: "locals \<Rightarrow> call" where
  "jump_box_call lv = ConnectSsh (jumpbox lv) (j_username lv) (j_password lv) [j_ending lv]"

definition tunnel_call :: "device \<Rightarrow> call" where
  "tunnel_call d =
     (if contains ''ssh'' (lower (protocol d))
      then SshViaJump (hostname d) (username d) (password d)
      else TelnetViaJump (hostname d) (username d) (password d))"

definition connect_calls :: "locals \<Rightarrow> state \<Rightarrow> device \<Rightarrow> call list" where
  "connect_calls lv st d =
     (if use_jumpbox lv
      then (if jump_connected st then [] else [jump_box_call lv]) @ [tunnel_call d]
      else [Connect (hostname d) (username d) (password d) (protocol d)])"

definition output_name :: "env \<Rightarrow> event list \<Rightarrow> string \<Rightarrow> string \<Rightarrow> string" where
  "output_name en tr enable_pass cmd =
     env_filename en (tr @ [ok (StartCiscoSession enable_pass)]) cmd None"

definition work_calls :: "env \<Rightarrow> event list \<Rightarrow> string \<Rightarrow> string \<Rightarrow> call list" where
  "work_calls en tr enable_pass cmd =
     [StartCiscoSession enable_pass,
      CreateOutputFilename cmd None,
      WriteOutputToFile cmd (output_name en tr enable_pass cmd),
      EndCiscoSession]"

definition closing_call :: "locals \<Rightarrow> call" where
  "closing_call lv = (if use_jumpbox lv then DisconnectViaJump else Disconnect)"

definition planned_calls :: "env \<Rightarrow> locals \<Rightarrow> state \<Rightarrow> device \<Rightarrow> call list" where
  "planned_calls en lv st d =
     connect_calls lv st d @
     work_calls en (trace st @ map ok (connect_calls lv st d)) (enable d) (send_cmd lv) @
     [closing_call lv]"

text \<open>
  Making a list of calls one after the other until one raises: \<open>outcomes\<close> are the events
  this adds to a trace \<open>tr\<close>, \<open>run_calls\<close> is the computation.
\<close>

fun outcomes :: "env \<Rightarrow> event list \<Rightarrow> call list \<Rightarrow> event list" where
  "outcomes en tr [] = []"
| "outcomes en tr (c # cs) =
     (case env_raises en tr c of
        None \<Rightarrow> (c, None) # outcomes en (tr @ [(c, None)]) cs
      | Some e \<Rightarrow> [(c, Some e)])"

definition perform :: "env \<Rightarrow> call \<Rightarrow> state \<Rightarrow> result" where
  "perform en c st =
     (case c of
        WriteOutputToFile cmd f \<Rightarrow> write_output_to_file en cmd f st
      | _ \<Rightarrow> session_call en c st)"

fun run_calls :: "env \<Rightarrow> call list \<Rightarrow> state \<Rightarrow> result" where
  "run_calls en [] st = (st, None)"
| "run_calls en (c # cs) st =
     (case perform en c st of
        (s, None) \<Rightarrow> run_calls en cs s
      | (s, Some e) \<Rightarrow> (s, Some e))"

text \<open>
  The state in which a device's \<open>try\<close> block ends: the events of its calls, the files
  written by them, and \<open>jump_connected\<close> set when the jump box was connected.
\<close>

definition try_state :: "env \<Rightarrow> locals \<Rightarrow> state \<Rightarrow> device \<Rightarrow> state" where
  "try_state en lv st d =
     (let evs = outcomes en (trace st) (planned_calls en lv st d)
      in st\<lparr>trace := trace st @ evs, files := files st @ written evs,
            jump_connected :=
              (if use_jumpbox lv
               then jump_connected st \<or> env_raises en (trace st) (jump_box_call lv) = None
               else jump_connected st)\<rparr>)"

text \<open>The exceptions that the handlers of the loop catch, and their messages.\<close>

fun caught :: "exn \<Rightarrow> bool" where
  "caught (ConnectError m) = True"
| "caught (InteractionError m) = True"
| "caught e = False"

fun message :: "exn \<Rightarrow> string" where
  "message (ConnectError m) = m"
| "message (InteractionError m) = m"
| "message (ScriptError m) = m"
| "message (OtherError m) = m"

text \<open>
  Observations on the loop. \<open>call_for lv d c\<close> says that \<open>c\<close> is a call the loop body can
  make for the device \<open>d\<close>: it carries the host name and credentials of \<open>d\<close> (or, for
  \<open>connect_ssh\<close>, those of the jump box). \<open>turns\<close> are the events of the loop, one list
  for each device taken up; \<open>tunnel_closes\<close> are the \<open>disconnect_via_jump\<close> calls.
\<close>

fun call_for :: "locals \<Rightarrow> device \<Rightarrow> call \<Rightarrow> bool" where
  "call_for lv d (Connect h u p pr) =
     (h = hostname d \<and> u = username d \<and> p = password d \<and> pr = protocol d)"
| "call_for lv d (SshViaJump h u p) = (h = hostname d \<and> u = username d \<and> p = password d)"
| "call_for lv d (TelnetViaJump h u p) = (h = hostname d \<and> u = username d \<and> p = password d)"
| "call_for lv d (ConnectSsh h u p es) =
     (h = jumpbox lv \<and> u = j_username lv \<and> p = j_password lv \<and> es = [j_ending lv])"
| "call_for lv d (StartCiscoSession e) = (e = enable d)"
| "call_for lv d (CreateOutputFilename c inc) = (c = send_cmd lv \<and> inc = None)"
| "call_for lv d (WriteOutputToFile c f) = (c = send_cmd lv)"
| "call_for lv d EndCiscoSession = True"
| "call_for lv d DisconnectViaJump = True"
| "call_for lv d Disconnect = True"
| "call_for lv d c = False"

fun turns :: "env \<Rightarrow> locals \<Rightarrow> state \<Rightarrow> device list \<Rightarrow> event list list" where
  "turns en lv st [] = []"
| "turns en lv st (d # ds) =
     (case device_step en lv st d of
        (s, None) \<Rightarrow> events_since st s # turns en lv s ds
      | (s, Some e) \<Rightarrow> [events_since st s])"

definition tunnel_closes :: "event list \<Rightarrow> event list" where
  "tunnel_closes evs = filter (\<lambda>ev. fst ev = DisconnectViaJump) evs"

text \<open>
  The dialogue of a run: its operator prompts and its writes to the settings store.
  \<open>stored\<close> reads a \<open>Global\<close> setting. Following the words of the spec, the jump-box
  section is expected to resolve each of host, user name and prompt ending to the stored
  value or, when that is missing, to the operator's answer, which it writes back; the
  password is prompted in every run and is not written. \<open>jump_box_dialogue\<close> and
  \<open>jump_box_settings\<close> spell this out, to be compared with \<open>jump_box_section\<close>.
  \<open>session_only st s\<close> says that from \<open>st\<close> to \<open>s\<close> only session calls were made and the
  settings were left alone.
\<close>

fun is_dialogue :: "call \<Rightarrow> bool" where
  "is_dialogue (PromptWindow msg hide) = True"
| "is_dialogue (SettingsUpdate sec opt v) = True"
| "is_dialogue c = False"

definition dialogue :: "event list \<Rightarrow> call list" where
  "dialogue evs = filter is_dialogue (map fst evs)"

definition stored :: "state \<Rightarrow> string \<Rightarrow> string option" where
  "stored st opt = map_of (settings st) (''Global'', opt)"

definition jumpbox_host_of :: "env \<Rightarrow> state \<Rightarrow> string" where
  "jumpbox_host_of en st =
     (if missing (stored st ''jumpbox_host'')
      then env_prompt en ''Enter the HOSTNAME or IP for the jumpbox'' False
      else value_of (stored st ''jumpbox_host''))"

definition jumpbox_user_of :: "env \<Rightarrow> state \<Rightarrow> string" where
  "jumpbox_user_of en st =
     (if missing (stored st ''jumpbox_user'')
      then env_prompt en (''JUMPBOX: Enter the USERNAME for '' @ jumpbox_host_of en st) False
      else value_of (stored st ''jumpbox_user''))"

definition jumpbox_end_of :: "env \<Rightarrow> state \<Rightarrow> string" where
  "jumpbox_end_of en st =
     (if missing (stored st ''jumpbox_prompt_end'')
      then env_prompt en ''Enter the last character of the jumpbox CLI prompt'' False
      else value_of (stored st ''jumpbox_prompt_end''))"

definition jump_box_dialogue :: "env \<Rightarrow> state \<Rightarrow> call list" where
  "jump_box_dialogue en st =
     (if missing (stored st ''jumpbox_host'')
      then [PromptWindow ''Enter the HOSTNAME or IP for the jumpbox'' False,
            SettingsUpdate ''Global'' ''jumpbox_host'' (jumpbox_host_of en st)]
      else []) @
     (if missing (stored st ''jumpbox_user'')
      then [PromptWindow (''JUMPBOX: Enter the USERNAME for '' @ jumpbox_host_of en st) False,
            SettingsUpdate ''Global'' ''jumpbox_user'' (jumpbox_user_of en st)]
      else []) @
     [PromptWindow (''JUMPBOX: Enter the PASSWORD for '' @ jumpbox_user_of en st) True] @
     (if missing (stored st ''jumpbox_prompt_end'')
      then [PromptWindow ''Enter the last character of the jumpbox CLI prompt'' False,
            SettingsUpdate ''Global'' ''jumpbox_prompt_end'' (jumpbox_end_of en st)]
      else [])"

definition jump_box_settings :: "env \<Rightarrow> state \<Rightarrow> string \<times> string \<Rightarrow> string option" where
  "jump_box_settings en st k =
     (if k = (''Global'', ''jumpbox_host'') \<and> missing (stored st ''jumpbox_host'')
      then Some (jumpbox_host_of en st)
      else if k = (''Global'', ''jumpbox_user'') \<and> missing (stored st ''jumpbox_user'')
      then Some (jumpbox_user_of en st)
      else if k = (''Global'', ''jumpbox_prompt_end'') \<and>
              missing (stored st ''jumpbox_prompt_end'')
      then Some (jumpbox_end_of en st)
      else map_of (settings st) k)"

definition session_only :: "state \<Rightarrow> state \<Rightarrow> bool" where
  "session_only st s \<longleftrightarrow>
     trace s = trace st @ events_since st s \<and> dialogue (events_since st s) = [] \<and>
     settings s = settings st"

subsection \<open>Observations on turns and on the run\<close>

text \<open>
  \<open>work_returned\<close> says of the events of a turn that the connection calls and the four
  calls of \<open>per_device_work\<close> returned: no call raised, or the first to raise is the
  closing disconnect. \<open>failure_line\<close> is the text that the handlers of the loop write for a
  device and an exception; \<open>one_line\<close> says that a text is a single line, ended by its only
  newline.
\<close>

definition work_returned :: "locals \<Rightarrow> event list \<Rightarrow> bool" where
  "work_returned lv evs =
     (case first_failure evs of None \<Rightarrow> True | Some (c, e) \<Rightarrow> c = closing_call lv)"

definition failure_line :: "locals \<Rightarrow> device \<Rightarrow> exn \<Rightarrow> string" where
  "failure_line lv d e =
     (if use_jumpbox lv then connect_failed_line (hostname d) (message e)
      else (case e of ConnectError m \<Rightarrow> connect_failed_line (hostname d) m
            | _ \<Rightarrow> failure_on_line (hostname d) (message e)))"



text \<open>
  The loop of a run is entered by the call that names the failure log (\<open>log_name_call\<close>),
  with the locals \<open>loop_locals\<close>. \<open>before_loop\<close> is the part of \<open>script_main\<close> before
  that, for a run that has a device list and a command; \<open>run_start\<close> and \<open>run_locals\<close> are
  the state and the locals with which such a run enters its loop.
\<close>

definition log_name_call :: "env \<Rightarrow> call" where
  "log_name_call en =
     CreateOutputFilename (before_dot (env_script_name en) @ ''-LOG'') (Some False)"

definition loop_locals :: "env \<Rightarrow> locals \<Rightarrow> state \<Rightarrow> locals" where
  "loop_locals en lv0 st0 =
     lv0\<lparr>failed_log :=
       env_filename en (trace st0) (before_dot (env_script_name en) @ ''-LOG'') (Some False)\<rparr>"

definition before_loop :: "env \<Rightarrow> state \<Rightarrow> state \<times> locals" where
  "before_loop en st =
     (let s4 = note_call (SettingsGetBoolean ''Global'' ''use_jumpbox'')
                 (note_call
                    (PromptWindow ''Enter the command to capture on each device.'' False)
                    (note_call ImportDeviceList
                       (note_call IsConnected (note_call GetMainSession st))));
          cmd = env_prompt en ''Enter the command to capture on each device.'' False
      in if env_use_jumpbox en then jump_box_section en cmd s4 else (s4, no_jump_box cmd))"

definition run_locals :: "env \<Rightarrow> state \<Rightarrow> locals" where
  "run_locals en st = loop_locals en (snd (before_loop en st)) (fst (before_loop en st))"

definition run_start :: "env \<Rightarrow> state \<Rightarrow> state" where
  "run_start en st =
     fst (session_call en (log_name_call en)
            ((fst (before_loop en st))\<lparr>jump_connected := False\<rparr>))"

text \<open>
  The report of a turn holds what the turn added: the calls made, the lines of the failure
  log and the output files. \<open>turn_complete lv d\<close> says what the report of the device \<open>d\<close>
  must hold: nothing for a device without a branch; otherwise a connection attempt first,
  only calls that carry the data of \<open>d\<close>, and then either the whole sequence of calls with
  one file and no log line, or a failure with the failure line of \<open>d\<close> when the exception is
  one the loop catches. \<open>turn_settled\<close> says that a turn ended by success or by a logged
  failure.
\<close>

type_synonym report = "event list \<times> (string \<times> string) list \<times> (string \<times> string) list"

definition report_of :: "state \<Rightarrow> state \<Rightarrow> report" where
  "report_of st s =
     (events_since st s, drop (length (faillog st)) (faillog s),
      drop (length (files st)) (files s))"

fun reports :: "env \<Rightarrow> locals \<Rightarrow> state \<Rightarrow> device list \<Rightarrow> report list" where
  "reports en lv st [] = []"
| "reports en lv st (d # ds) =
     (case device_step en lv st d of
        (s, None) \<Rightarrow> report_of st s # reports en lv s ds
      | (s, Some e) \<Rightarrow> [report_of st s])"

definition target_call :: "locals \<Rightarrow> device \<Rightarrow> call" where
  "target_call lv d =
     (if use_jumpbox lv then tunnel_call d
      else Connect (hostname d) (username d) (password d) (protocol d))"

definition completed_calls :: "locals \<Rightarrow> device \<Rightarrow> string \<Rightarrow> call list" where
  "completed_calls lv d f =
     [target_call lv d, StartCiscoSession (enable d),
      CreateOutputFilename (send_cmd lv) None, WriteOutputToFile (send_cmd lv) f,
      EndCiscoSession, closing_call lv]"

fun turn_complete :: "locals \<Rightarrow> device \<Rightarrow> report \<Rightarrow> bool" where
  "turn_complete lv d (T, L, F) =
     (if attempted lv d
      then T \<noteq> [] \<and> is_connection_attempt (fst (hd T)) \<and>
           list_all (\<lambda>ev. call_for lv d (fst ev)) T \<and>
           (case first_failure T of
              None \<Rightarrow>
                L = [] \<and> map snd F = [send_cmd lv] \<and>
                (map fst T = completed_calls lv d (fst (hd F)) \<or>
                 map fst T = jump_box_call lv # completed_calls lv d (fst (hd F)))
            | Some (c, e) \<Rightarrow>
                L = (if caught e then [(failed_log lv, failure_line lv d e)] else []))
      else T = [] \<and> L = [] \<and> F = [])"

fun turn_settled :: "report \<Rightarrow> bool" where
  "turn_settled (T, L, F) =
     (case first_failure T of None \<Rightarrow> True | Some (c, e) \<Rightarrow> caught e \<and> length L = 1)"

definition run_reports :: "env \<Rightarrow> state \<Rightarrow> report list" where
  "run_reports en st = reports en (run_locals en st) (run_start en st) (env_devices en)"

subsection \<open>Sample runs\<close>

definition dev_r1 :: device where
  "dev_r1 = \<lparr>hostname = ''r1'', protocol = ''SSH2'', username = ''admin'',
             password = ''pw1'', enable = ''en1''\<rparr>"

definition dev_r2 :: device where
  "dev_r2 = \<lparr>hostname = ''r2'', protocol = ''Telnet'', username = ''admin'',
             password = ''pw2'', enable = ''en2''\<rparr>"

definition dev_r3 :: device where
  "dev_r3 = \<lparr>hostname = ''r3'', protocol = ''Serial'', username = ''admin'',
             password = ''pw3'', enable = ''en3''\<rparr>"

definition operator :: "string \<Rightarrow> bool \<Rightarrow> string" where
  "operator msg hide =
     (if hide then ''secret''
      else if msg = ''Enter the command to capture on each device.'' then ''show version''
      else if msg = ''Enter the HOSTNAME or IP for the jumpbox'' then ''jump1''
      else if msg = ''Enter the last character of the jumpbox CLI prompt'' then ''$''
      else ''ops'')"

definition name_file :: "event list \<Rightarrow> string \<Rightarrow> bool option \<Rightarrow> string" where
  "name_file tr desc inc = desc @ ''-'' @ replicate (length tr) CHR ''x'' @ ''.txt''"

text \<open>
  \<open>raise_at c e\<close> makes the call \<open>c\<close> raise \<open>e\<close> whenever it is made; \<open>calm\<close> is a
  world in which no call raises.
\<close>

definition raise_at :: "call \<Rightarrow> exn \<Rightarrow> event list \<Rightarrow> call \<Rightarrow> exn option" where
  "raise_at c e tr c' = (if c' = c then Some e else None)"

definition calm :: env where
  "calm = \<lparr>env_script_name = ''m_save_output.py'', env_connected = False,
           env_devices = [dev_r1, dev_r2], env_prompt = operator, env_use_jumpbox = False,
           env_filename = name_file, env_raises = (\<lambda>tr c. None)\<rparr>"

text \<open>
  Worlds with faults: \<open>start_cisco_session\<close> raises for the first device;
  \<open>end_cisco_session\<close> raises with a message of two lines; the closing \<open>disconnect\<close>
  raises; the tunnel to the first device is refused; the tunnel is refused and
  \<open>disconnect\<close> raises too.
\<close>

definition stuck_at_start :: env where
  "stuck_at_start =
     calm\<lparr>env_raises := raise_at (StartCiscoSession ''en1'') (InteractionError ''no prompt '')\<rparr>"


definition drops_at_close :: env where
  "drops_at_close = calm\<lparr>env_raises := raise_at Disconnect (ConnectError ''gone'')\<rparr>"

definition tunnel_refused :: env where
  "tunnel_refused =
     calm\<lparr>env_raises := raise_at (SshViaJump ''r1'' ''admin'' ''pw1'') (ConnectError ''refused'')\<rparr>"

definition both_refused :: env where
  "both_refused =
     calm\<lparr>env_raises := (\<lambda>tr c.
       if c = SshViaJump ''r1'' ''admin'' ''pw1'' \<or> c = Disconnect
       then Some (ConnectError ''refused'') else None)\<rparr>"

text \<open>A run through the jump box, and a settings store that knows the user name only.\<close>

definition jump_env :: env where
  "jump_env = calm\<lparr>env_use_jumpbox := True\<rparr>"

definition fresh :: state where
  "fresh = \<lparr>trace = [], settings = [], files = [], faillog = [], jump_connected = False\<rparr>"

definition half_configured :: state where
  "half_configured = fresh\<lparr>settings := [((''Global'', ''jumpbox_user''), ''netops'')]\<rparr>"

definition lv_jump :: locals where
  "lv_jump = \<lparr>send_cmd = ''show version'', use_jumpbox = True, jumpbox = ''jump1'',
              j_username = ''ops'', j_password = ''secret'', j_ending = ''$'',
              failed_log = ''m_save_output-LOG.txt''\<rparr>"

definition lv_direct :: locals where
  "lv_direct = (no_jump_box ''show version'')\<lparr>failed_log := ''m_save_output-LOG.txt''\<rparr>"

section \<open>Properties\<close>

subsection \<open>Basic facts\<close>

lemma session_call_eq:
  "session_call en c st =
     (st\<lparr>trace := trace st @ [(c, env_raises en (trace st) c)]\<rparr>, env_raises en (trace st) c)"
  by (simp add: session_call_def Let_def)

lemma and_then_case:
  "and_then (s, r) f = (case r of None \<Rightarrow> f s | Some e \<Rightarrow> (s, Some e))"
  by (cases r) simp_all

lemma first_failure_case:
  "first_failure ((c, r) # evs) = (case r of None \<Rightarrow> first_failure evs | Some e \<Rightarrow> Some (c, e))"
  by (cases r) simp_all

lemma direct_except_case:
  "direct_except lv d (s, r) =
     (case r of None \<Rightarrow> (s, None)
      | Some (ConnectError m) \<Rightarrow>
          (append_line (failed_log lv) (connect_failed_line (hostname d) m) s, None)
      | Some (InteractionError m) \<Rightarrow>
          (append_line (failed_log lv) (failure_on_line (hostname d) m) s, None)
      | Some e \<Rightarrow> (s, Some e))"
  by (cases "(lv, d, (s, r))" rule: direct_except.cases) simp_all

lemma events_since_append [simp]:
  "trace s = trace st @ evs \<Longrightarrow> events_since st s = evs"
  by (simp add: events_since_def)

subsection \<open>The loop body in closed form\<close>

text \<open>
  A \<open>try\<close> block of the loop makes its planned calls one after the other until one
  raises; the handlers then act on the first failure.
\<close>

lemma jump_except_case:
  "jump_except en lv d (s, r) =
     (case r of None \<Rightarrow> (s, None)
      | Some (ConnectError m) \<Rightarrow>
          and_then
            (session_call en Disconnect
               (append_line (failed_log lv) (connect_failed_line (hostname d) m) s))
            (\<lambda>s'. (s'\<lparr>jump_connected := False\<rparr>, None))
      | Some (InteractionError m) \<Rightarrow>
          and_then
            (session_call en Disconnect
               (append_line (failed_log lv) (connect_failed_line (hostname d) m) s))
            (\<lambda>s'. (s'\<lparr>jump_connected := False\<rparr>, None))
      | Some e \<Rightarrow> (s, Some e))"
  by (cases "(en, lv, d, (s, r))" rule: jump_except.cases) simp_all

lemma perform_eq:
  "perform en c st =
     (st\<lparr>trace := trace st @ [(c, env_raises en (trace st) c)],
         files := files st @ written [(c, env_raises en (trace st) c)]\<rparr>,
      env_raises en (trace st) c)"
  by (cases c; cases "env_raises en (trace st) c")
     (simp_all add: perform_def write_output_to_file_def session_call_eq and_then_case)

lemma written_append: "written (xs @ ys) = written xs @ written ys"
  by (induction xs rule: written.induct) simp_all

lemma written_Cons: "written (ev # evs) = written [ev] @ written evs"
  using written_append [of "[ev]" evs] by simp

lemma run_calls_eq:
  "run_calls en cs st =
     (st\<lparr>trace := trace st @ outcomes en (trace st) cs,
         files := files st @ written (outcomes en (trace st) cs)\<rparr>,
      map_option snd (first_failure (outcomes en (trace st) cs)))"
proof (induction cs arbitrary: st)
  case Nil
  show ?case by simp
next
  case (Cons c cs)
  show ?case
  proof (cases "env_raises en (trace st) c")
    case None
    then show ?thesis
      by (simp add: perform_eq Cons.IH written_Cons [of "(c, None)" "outcomes en tr cs" for tr])
  next
    case (Some e)
    then show ?thesis
      by (cases c) (simp_all add: perform_eq)
  qed
qed

lemma per_device_work_run:
  "per_device_work en ep cmd st = run_calls en (work_calls en (trace st) ep cmd) st"
  by (simp add: per_device_work_def work_calls_def output_name_def ok_def perform_def
        write_output_to_file_def session_call_eq and_then_case Let_def
      split: option.splits)

lemma direct_try_run:
  "\<not> use_jumpbox lv \<Longrightarrow> direct_try en lv d st = run_calls en (planned_calls en lv st d) st"
  by (simp add: direct_try_def planned_calls_def connect_calls_def closing_call_def
        per_device_work_run work_calls_def ok_def perform_def
        write_output_to_file_def session_call_eq and_then_case
      split: option.splits)

lemma run_calls_append:
  "run_calls en (cs @ cs') st = and_then (run_calls en cs st) (run_calls en cs')"
proof (induction cs arbitrary: st)
  case Nil
  show ?case by simp
next
  case (Cons c cs)
  obtain s r where p: "perform en c st = (s, r)" by (cases "perform en c st")
  show ?case by (cases r) (simp_all add: p Cons.IH)
qed

lemma run_calls_single: "run_calls en [c] = perform en c"
proof
  fix st
  obtain s r where p: "perform en c st = (s, r)" by (cases "perform en c st")
  show "run_calls en [c] st = perform en c st" by (cases r) (simp_all add: p)
qed

lemma perform_tunnel: "perform en (tunnel_call d) = session_call en (tunnel_call d)"
  by (rule ext) (simp add: perform_def tunnel_call_def)

lemma perform_closing: "perform en DisconnectViaJump = session_call en DisconnectViaJump"
  by (rule ext) (simp add: perform_def)

lemma perform_jump_box: "perform en (jump_box_call lv) = session_call en (jump_box_call lv)"
  by (rule ext) (simp add: perform_def jump_box_call_def)

lemma jump_tail_run:
  "and_then (session_call en (tunnel_call d) s1) (\<lambda>s2.
     and_then (per_device_work en ep cmd s2) (\<lambda>s3. session_call en DisconnectViaJump s3)) =
   run_calls en
     (tunnel_call d # work_calls en (trace s1 @ [ok (tunnel_call d)]) ep cmd @ [DisconnectViaJump])
     s1"
proof (cases "env_raises en (trace s1) (tunnel_call d)")
  case None
  then have t: "session_call en (tunnel_call d) s1 =
                  (s1\<lparr>trace := trace s1 @ [ok (tunnel_call d)]\<rparr>, None)"
    by (simp add: session_call_eq ok_def)
  show ?thesis
    by (simp add: perform_tunnel t per_device_work_run run_calls_append
          run_calls_single perform_closing)
next
  case (Some e)
  then have t: "session_call en (tunnel_call d) s1 =
                  (s1\<lparr>trace := trace s1 @ [(tunnel_call d, Some e)]\<rparr>, Some e)"
    by (simp add: session_call_eq)
  show ?thesis
    by (simp add: perform_tunnel t)
qed

lemma run_calls_flag:
  "run_calls en cs (st\<lparr>jump_connected := b\<rparr>) =
     (fst (run_calls en cs st)\<lparr>jump_connected := b\<rparr>, snd (run_calls en cs st))"
  by (simp add: run_calls_eq)

lemma jump_try_unfold:
  "jump_try en lv (tunnel_call d) d st =
     and_then
       (if \<not> jump_connected st
        then and_then (session_call en (jump_box_call lv) st)
               (\<lambda>s. (s\<lparr>jump_connected := True\<rparr>, None))
        else (st, None))
       (\<lambda>s1. run_calls en
                (tunnel_call d #
                 work_calls en (trace s1 @ [ok (tunnel_call d)]) (enable d) (send_cmd lv) @
                 [DisconnectViaJump]) s1)"
  unfolding jump_try_def jump_box_call_def [symmetric] jump_tail_run ..

lemma jump_try_run:
  assumes "use_jumpbox lv"
  shows "jump_try en lv (tunnel_call d) d st =
     (fst (run_calls en (planned_calls en lv st d) st)
        \<lparr>jump_connected :=
           jump_connected st \<or> env_raises en (trace st) (jump_box_call lv) = None\<rparr>,
      snd (run_calls en (planned_calls en lv st d) st))"
proof (cases "jump_connected st")
  case True
  have l: "jump_try en lv (tunnel_call d) d st = run_calls en (planned_calls en lv st d) st"
    using True assms
    by (simp add: jump_try_unfold planned_calls_def connect_calls_def closing_call_def
             del: run_calls.simps)
  have k: "jump_connected (fst (run_calls en (planned_calls en lv st d) st))"
    using True by (simp add: run_calls_eq)
  have "fst (run_calls en (planned_calls en lv st d) st)\<lparr>jump_connected := True\<rparr> =
        fst (run_calls en (planned_calls en lv st d) st)"
    using k by simp
  with True show ?thesis by (simp add: l)
next
  case False
  show ?thesis
  proof (cases "env_raises en (trace st) (jump_box_call lv)")
    case None
    then have t: "session_call en (jump_box_call lv) st =
                    (st\<lparr>trace := trace st @ [ok (jump_box_call lv)]\<rparr>, None)"
      by (simp add: session_call_eq ok_def)
    have p: "planned_calls en lv st d =
               jump_box_call lv #
               (tunnel_call d #
                work_calls en (trace st @ [ok (jump_box_call lv)] @ [ok (tunnel_call d)])
                  (enable d) (send_cmd lv) @
                [DisconnectViaJump])"
      using False assms
      by (simp add: planned_calls_def connect_calls_def closing_call_def)
    have r: "run_calls en (planned_calls en lv st d) st =
               run_calls en
                 (tunnel_call d #
                  work_calls en (trace st @ [ok (jump_box_call lv)] @ [ok (tunnel_call d)])
                    (enable d) (send_cmd lv) @
                  [DisconnectViaJump])
                 (st\<lparr>trace := trace st @ [ok (jump_box_call lv)]\<rparr>)"
      unfolding p by (simp add: perform_jump_box t del: append.simps)
    have l: "jump_try en lv (tunnel_call d) d st =
               run_calls en
                 (tunnel_call d #
                  work_calls en (trace st @ [ok (jump_box_call lv)] @ [ok (tunnel_call d)])
                    (enable d) (send_cmd lv) @
                  [DisconnectViaJump])
                 (st\<lparr>trace := trace st @ [ok (jump_box_call lv)], jump_connected := True\<rparr>)"
      using False by (simp add: jump_try_unfold t del: run_calls.simps)
    show ?thesis
      using None by (simp add: l r run_calls_flag del: run_calls.simps)
  next
    case (Some e)
    then have t: "session_call en (jump_box_call lv) st =
                    (st\<lparr>trace := trace st @ [(jump_box_call lv, Some e)]\<rparr>, Some e)"
      by (simp add: session_call_eq)
    have p: "planned_calls en lv st d = jump_box_call lv # tl (planned_calls en lv st d)"
      using False assms
      by (simp add: planned_calls_def connect_calls_def)
    have r: "run_calls en (planned_calls en lv st d) st =
               (st\<lparr>trace := trace st @ [(jump_box_call lv, Some e)]\<rparr>, Some e)"
      by (subst p) (simp add: perform_jump_box t)
    show ?thesis
      using False Some by (simp add: jump_try_unfold t r)
  qed
qed

lemma direct_step_closed:
  assumes "\<not> use_jumpbox lv"
  shows "device_step en lv st d =
     (case first_failure (outcomes en (trace st) (planned_calls en lv st d)) of
        None \<Rightarrow> (try_state en lv st d, None)
      | Some (c, e) \<Rightarrow>
          if caught e
          then (append_line (failed_log lv)
                  (case e of ConnectError m \<Rightarrow> connect_failed_line (hostname d) m
                   | _ \<Rightarrow> failure_on_line (hostname d) (message e))
                  (try_state en lv st d), None)
          else (try_state en lv st d, Some e))"
proof (cases "first_failure (outcomes en (trace st) (planned_calls en lv st d))")
  case None
  with assms show ?thesis
    by (simp add: device_step_def direct_try_run run_calls_eq try_state_def Let_def)
next
  case (Some ce)
  obtain c e where "ce = (c, e)" by (cases ce)
  with Some assms show ?thesis
    by (cases e)
       (simp_all add: device_step_def direct_try_run run_calls_eq try_state_def Let_def)
qed

lemma jump_step_closed:
  assumes "use_jumpbox lv" and "attempted lv d"
  shows "device_step en lv st d =
     (case first_failure (outcomes en (trace st) (planned_calls en lv st d)) of
        None \<Rightarrow> (try_state en lv st d, None)
      | Some (c, e) \<Rightarrow>
          if caught e
          then and_then
                 (session_call en Disconnect
                    (append_line (failed_log lv) (connect_failed_line (hostname d) (message e))
                       (try_state en lv st d)))
                 (\<lambda>s'. (s'\<lparr>jump_connected := False\<rparr>, None))
          else (try_state en lv st d, Some e))"
proof -
  have step: "device_step en lv st d = jump_except en lv d (jump_try en lv (tunnel_call d) d st)"
    using assms by (auto simp: device_step_def attempted_def tunnel_call_def)
  show ?thesis
  proof (cases "first_failure (outcomes en (trace st) (planned_calls en lv st d))")
    case None
    with assms show ?thesis
      by (simp add: step jump_try_run run_calls_eq try_state_def Let_def)
  next
    case (Some ce)
    obtain c e where "ce = (c, e)" by (cases ce)
    with Some assms show ?thesis
      by (cases e) (simp_all add: step jump_try_run run_calls_eq try_state_def Let_def)
  qed
qed

subsection \<open>The outcome of a device's turn\<close>

lemma first_failure_map_ok [simp]: "first_failure (map ok cs) = None"
  by (induction cs) (simp_all add: ok_def)

lemma first_failure_append:
  "first_failure (xs @ ys) =
     (case first_failure xs of None \<Rightarrow> first_failure ys | Some x \<Rightarrow> Some x)"
  by (induction xs rule: first_failure.induct) simp_all

lemma outcomes_ok:
  "first_failure (outcomes en tr cs) = None \<Longrightarrow> outcomes en tr cs = map ok cs"
  by (induction cs arbitrary: tr) (simp_all add: ok_def split: option.splits)

lemma outcomes_fail:
  "first_failure (outcomes en tr cs) = Some (c, e) \<Longrightarrow>
   \<exists>pre post. cs = pre @ c # post \<and> outcomes en tr cs = map ok pre @ [(c, Some e)]"
proof (induction cs arbitrary: tr)
  case Nil
  then show ?case by simp
next
  case (Cons a cs)
  show ?case
  proof (cases "env_raises en tr a")
    case None
    with Cons.prems have "first_failure (outcomes en (tr @ [(a, None)]) cs) = Some (c, e)"
      by simp
    from Cons.IH [OF this] obtain pre post where
      "cs = pre @ c # post" "outcomes en (tr @ [(a, None)]) cs = map ok pre @ [(c, Some e)]"
      by blast
    with None have "a # cs = (a # pre) @ c # post \<and>
        outcomes en tr (a # cs) = map ok (a # pre) @ [(c, Some e)]"
      by (simp add: ok_def)
    then show ?thesis by blast
  next
    case (Some e')
    with Cons.prems have "a # cs = [] @ c # cs \<and>
        outcomes en tr (a # cs) = map ok [] @ [(c, Some e)]"
      by simp
    then show ?thesis by blast
  qed
qed

lemma try_state_simps [simp]:
  "trace (try_state en lv st d) = trace st @ outcomes en (trace st) (planned_calls en lv st d)"
  "files (try_state en lv st d) =
     files st @ written (outcomes en (trace st) (planned_calls en lv st d))"
  "faillog (try_state en lv st d) = faillog st"
  "settings (try_state en lv st d) = settings st"
  by (simp_all add: try_state_def Let_def)

lemma step_skipped: "\<not> attempted lv d \<Longrightarrow> device_step en lv st d = (st, None)"
  by (simp add: device_step_def attempted_def)

lemma step_success:
  assumes "attempted lv d"
      and "first_failure (outcomes en (trace st) (planned_calls en lv st d)) = None"
  shows "device_step en lv st d = (try_state en lv st d, None)"
  using assms by (cases "use_jumpbox lv") (simp_all add: direct_step_closed jump_step_closed)

lemma step_uncaught:
  assumes "attempted lv d"
      and "first_failure (outcomes en (trace st) (planned_calls en lv st d)) = Some (c, e)"
      and "\<not> caught e"
  shows "device_step en lv st d = (try_state en lv st d, Some e)"
  using assms by (cases "use_jumpbox lv") (simp_all add: direct_step_closed jump_step_closed)

lemma step_caught_direct:
  assumes "\<not> use_jumpbox lv"
      and "first_failure (outcomes en (trace st) (planned_calls en lv st d)) = Some (c, e)"
      and "caught e"
  shows "device_step en lv st d =
           (append_line (failed_log lv)
              (case e of ConnectError m \<Rightarrow> connect_failed_line (hostname d) m
               | _ \<Rightarrow> failure_on_line (hostname d) (message e))
              (try_state en lv st d), None)"
  using assms by (simp add: direct_step_closed)

lemma step_caught_jump:
  assumes "use_jumpbox lv" and "attempted lv d"
      and "first_failure (outcomes en (trace st) (planned_calls en lv st d)) = Some (c, e)"
      and "caught e"
  shows "device_step en lv st d =
           and_then
             (session_call en Disconnect
                (append_line (failed_log lv) (connect_failed_line (hostname d) (message e))
                   (try_state en lv st d)))
             (\<lambda>s'. (s'\<lparr>jump_connected := False\<rparr>, None))"
  using assms by (simp add: jump_step_closed)

lemma step_first_failure:
  assumes "attempted lv d"
  shows "first_failure (events_since st (fst (device_step en lv st d))) =
         first_failure (outcomes en (trace st) (planned_calls en lv st d))"
proof (cases "first_failure (outcomes en (trace st) (planned_calls en lv st d))")
  case None
  with assms show ?thesis by (simp add: step_success)
next
  case (Some ce)
  obtain c e where ce: "ce = (c, e)" by (cases ce)
  show ?thesis
  proof (cases "caught e")
    case False
    with assms Some ce show ?thesis by (simp add: step_uncaught)
  next
    case True
    show ?thesis
    proof (cases "use_jumpbox lv")
      case False
      with True Some ce show ?thesis
        by (simp add: step_caught_direct append_line_def)
    next
      case u: True
      have "events_since st (fst (device_step en lv st d)) =
              outcomes en (trace st) (planned_calls en lv st d) @
              [(Disconnect,
                env_raises en
                  (trace st @ outcomes en (trace st) (planned_calls en lv st d)) Disconnect)]"
        using u True Some ce assms
        by (simp add: step_caught_jump session_call_eq append_line_def and_then_case
              split: option.splits)
      with Some show ?thesis by (simp add: first_failure_append)
    qed
  qed
qed

lemma step_events:
  assumes "attempted lv d"
  shows "\<exists>rest. events_since st (fst (device_step en lv st d)) =
           outcomes en (trace st) (planned_calls en lv st d) @ rest"
proof (cases "first_failure (outcomes en (trace st) (planned_calls en lv st d))")
  case None
  with assms show ?thesis by (simp add: step_success)
next
  case (Some ce)
  obtain c e where ce: "ce = (c, e)" by (cases ce)
  show ?thesis
  proof (cases "caught e")
    case False
    with assms Some ce show ?thesis by (simp add: step_uncaught)
  next
    case True
    show ?thesis
    proof (cases "use_jumpbox lv")
      case False
      with True Some ce show ?thesis
        by (simp add: step_caught_direct append_line_def)
    next
      case u: True
      with True Some ce assms show ?thesis
        by (simp add: step_caught_jump session_call_eq append_line_def and_then_case
              split: option.splits)
    qed
  qed
qed

lemma written_planned:
  "written (map ok (planned_calls en lv st d)) =
     [(output_name en (trace st @ map ok (connect_calls lv st d)) (enable d) (send_cmd lv),
       send_cmd lv)]"
  by (simp add: planned_calls_def connect_calls_def work_calls_def closing_call_def ok_def
        jump_box_call_def tunnel_call_def written_append)

lemma step_caught_jump_result:
  assumes "use_jumpbox lv" and "attempted lv d"
      and "first_failure (outcomes en (trace st) (planned_calls en lv st d)) = Some (c, e)"
      and "caught e"
  shows "device_step en lv st d =
           ((try_state en lv st d)
              \<lparr>faillog := faillog st @
                 [(failed_log lv, connect_failed_line (hostname d) (message e))],
               trace := trace (try_state en lv st d) @
                 [(Disconnect, env_raises en (trace (try_state en lv st d)) Disconnect)],
               jump_connected :=
                 (env_raises en (trace (try_state en lv st d)) Disconnect \<noteq> None \<and>
                  jump_connected (try_state en lv st d))\<rparr>,
            env_raises en (trace (try_state en lv st d)) Disconnect)"
  using assms
  by (simp add: step_caught_jump session_call_eq append_line_def and_then_case
        split: option.splits)

lemma outcomes_hd:
  "cs \<noteq> [] \<Longrightarrow>
   outcomes en tr cs \<noteq> [] \<and> hd (outcomes en tr cs) = (hd cs, env_raises en tr (hd cs))"
  by (cases cs) (simp_all split: option.splits)

lemma planned_nonempty: "planned_calls en lv st d \<noteq> []"
  by (simp add: planned_calls_def)

lemma step_first_event:
  assumes "attempted lv d"
  shows "hd (events_since st (fst (device_step en lv st d))) =
           (hd (planned_calls en lv st d),
            env_raises en (trace st) (hd (planned_calls en lv st d)))"
proof -
  from step_events [OF assms] obtain rest where
    "events_since st (fst (device_step en lv st d)) =
       outcomes en (trace st) (planned_calls en lv st d) @ rest"
    by blast
  with outcomes_hd [where cs = "planned_calls en lv st d" and en = en and tr = "trace st",
      OF planned_nonempty]
  show ?thesis by simp
qed

lemma before_last:
  assumes "pre @ c # post = xs @ [z]" and "c \<noteq> z" and "z \<notin> set xs"
  shows "z \<notin> set pre"
proof (cases post rule: rev_cases)
  case Nil
  with assms(1,2) show ?thesis by simp
next
  case (snoc ys y)
  with assms(1) have "(pre @ c # ys) @ [y] = xs @ [z]" by simp
  then have "pre @ c # ys = xs" by (simp only: append1_eq_conv)
  with assms(3) show ?thesis by auto
qed

lemma after_first:
  assumes "pre @ c # post = a # xs" and "c \<noteq> a"
  shows "pre \<noteq> [] \<and> hd pre = a"
  using assms by (cases pre) simp_all

subsection \<open>The trace of the loop\<close>

lemma outcomes_calls: "fst ` set (outcomes en tr cs) \<subseteq> set cs"
  by (induction cs arbitrary: tr) (auto split: option.splits)

lemma planned_call_for: "c \<in> set (planned_calls en lv st d) \<Longrightarrow> call_for lv d c"
  by (auto simp: planned_calls_def connect_calls_def work_calls_def closing_call_def
        jump_box_call_def tunnel_call_def split: if_splits)

lemma step_trace_shape:
  assumes "attempted lv d"
  shows "\<exists>rest. trace (fst (device_step en lv st d)) =
           trace st @ outcomes en (trace st) (planned_calls en lv st d) @ rest \<and>
         settings (fst (device_step en lv st d)) = settings st \<and>
         (rest = [] \<or> (\<exists>rd. rest = [(Disconnect, rd)]))"
proof (cases "first_failure (outcomes en (trace st) (planned_calls en lv st d))")
  case None
  with assms show ?thesis by (simp add: step_success)
next
  case (Some ce)
  obtain c e where ce: "ce = (c, e)" by (cases ce)
  show ?thesis
  proof (cases "caught e")
    case False
    with assms Some ce show ?thesis by (simp add: step_uncaught)
  next
    case True
    show ?thesis
    proof (cases "use_jumpbox lv")
      case False
      with True Some ce show ?thesis
        by (simp add: step_caught_direct append_line_def)
    next
      case u: True
      with True Some ce assms show ?thesis
        by (simp add: step_caught_jump_result)
    qed
  qed
qed

lemma step_trace:
  "trace (fst (device_step en lv st d)) =
     trace st @ events_since st (fst (device_step en lv st d)) \<and>
   settings (fst (device_step en lv st d)) = settings st \<and>
   (\<forall>ev \<in> set (events_since st (fst (device_step en lv st d))). call_for lv d (fst ev))"
proof (cases "attempted lv d")
  case False
  then have "device_step en lv st d = (st, None)" by (rule step_skipped)
  then show ?thesis by (simp add: events_since_def del: events_since_append)
next
  case True
  from step_trace_shape [where st = st and en = en, OF True] obtain rest where
    tr: "trace (fst (device_step en lv st d)) =
           trace st @ outcomes en (trace st) (planned_calls en lv st d) @ rest" and
    se: "settings (fst (device_step en lv st d)) = settings st" and
    rest: "rest = [] \<or> (\<exists>rd. rest = [(Disconnect, rd)])"
    by blast
  from tr have ev: "events_since st (fst (device_step en lv st d)) =
           outcomes en (trace st) (planned_calls en lv st d) @ rest"
    by (rule events_since_append)
  have a: "trace (fst (device_step en lv st d)) =
             trace st @ events_since st (fst (device_step en lv st d))"
    unfolding ev by (rule tr)
  have "\<forall>ev \<in> set (outcomes en (trace st) (planned_calls en lv st d)). call_for lv d (fst ev)"
    using outcomes_calls [of en "trace st" "planned_calls en lv st d"] planned_call_for
    by blast
  moreover have "\<forall>ev \<in> set rest. call_for lv d (fst ev)"
    using rest by auto
  ultimately have b: "\<forall>ev \<in> set (events_since st (fst (device_step en lv st d))).
      call_for lv d (fst ev)"
    unfolding ev by auto
  from a se b show ?thesis by blast
qed

lemma events_since_trans:
  assumes "trace s = trace st @ events_since st s"
      and "trace s' = trace s @ events_since s s'"
  shows "events_since st s' = events_since st s @ events_since s s'"
    and "trace s' = trace st @ events_since st s'"
proof -
  have t: "trace s' = trace st @ events_since st s @ events_since s s'"
    by (subst assms(2), subst assms(1)) simp
  then show e: "events_since st s' = events_since st s @ events_since s s'"
    by (rule events_since_append)
  show "trace s' = trace st @ events_since st s'"
    unfolding e by (rule t)
qed

lemma loop_trace:
  "trace (fst (device_loop en lv st ds)) =
     trace st @ events_since st (fst (device_loop en lv st ds)) \<and>
   events_since st (fst (device_loop en lv st ds)) = concat (turns en lv st ds) \<and>
   settings (fst (device_loop en lv st ds)) = settings st"
proof (induction ds arbitrary: st)
  case Nil
  show ?case by (simp add: events_since_def del: events_since_append)
next
  case (Cons d ds)
  obtain s r where step: "device_step en lv st d = (s, r)" by (cases "device_step en lv st d")
  from step_trace [of en lv st d]
  have tr: "trace s = trace st @ events_since st s" and se: "settings s = settings st"
    unfolding step fst_conv by blast+
  show ?case
  proof (cases r)
    case None
    have eq: "device_loop en lv st (d # ds) = device_loop en lv s ds"
      using step None by simp
    have tu: "turns en lv st (d # ds) = events_since st s # turns en lv s ds"
      using step None by simp
    from Cons.IH [of s]
    have ih1: "trace (fst (device_loop en lv s ds)) =
                trace s @ events_since s (fst (device_loop en lv s ds))"
      and ih2: "events_since s (fst (device_loop en lv s ds)) = concat (turns en lv s ds)"
      and ih3: "settings (fst (device_loop en lv s ds)) = settings s"
      by blast+
    note t = events_since_trans [OF tr ih1]
    have "events_since st (fst (device_loop en lv s ds)) =
            concat (events_since st s # turns en lv s ds)"
      unfolding t(1) ih2 by simp
    moreover have "settings (fst (device_loop en lv s ds)) = settings st"
      unfolding ih3 se ..
    ultimately show ?thesis unfolding eq tu using t(2) by blast
  next
    case (Some e)
    have eq: "device_loop en lv st (d # ds) = (s, Some e)"
      using step Some by simp
    have tu: "turns en lv st (d # ds) = [events_since st s]"
      using step Some by simp
    have "events_since st s = concat [events_since st s]" by simp
    with tr se show ?thesis unfolding eq tu fst_conv by blast
  qed
qed

lemma turns_length:
  "length (turns en lv st ds) \<le> length ds \<and>
   (snd (device_loop en lv st ds) = None \<longrightarrow> length (turns en lv st ds) = length ds)"
proof (induction ds arbitrary: st)
  case Nil
  show ?case by simp
next
  case (Cons d ds)
  obtain s r where step: "device_step en lv st d = (s, r)" by (cases "device_step en lv st d")
  show ?case
    using Cons.IH [of s] step by (cases r) simp_all
qed

lemma turns_call_for:
  "i < length (turns en lv st ds) \<Longrightarrow> ev \<in> set (turns en lv st ds ! i) \<Longrightarrow>
   call_for lv (ds ! i) (fst ev)"
proof (induction ds arbitrary: st i)
  case Nil
  then show ?case by simp
next
  case (Cons d ds)
  obtain s r where step: "device_step en lv st d = (s, r)" by (cases "device_step en lv st d")
  from step_trace [of en lv st d]
  have here: "\<forall>ev \<in> set (events_since st s). call_for lv d (fst ev)"
    unfolding step fst_conv by blast
  show ?case
  proof (cases r)
    case None
    then have tu: "turns en lv st (d # ds) = events_since st s # turns en lv s ds"
      using step by simp
    show ?thesis
    proof (cases i)
      case 0
      with Cons.prems(2) here show ?thesis unfolding tu by simp
    next
      case (Suc j)
      with Cons.prems have "j < length (turns en lv s ds)"
        "ev \<in> set (turns en lv s ds ! j)"
        unfolding tu by simp_all
      from Cons.IH [OF this] Suc show ?thesis by simp
    qed
  next
    case (Some e)
    then have tu: "turns en lv st (d # ds) = [events_since st s]"
      using step by simp
    from Cons.prems have "i = 0" unfolding tu by simp
    with Cons.prems(2) here show ?thesis unfolding tu by simp
  qed
qed

lemma loop_append:
  "device_loop en lv st (ds @ ds') =
     and_then (device_loop en lv st ds) (\<lambda>s. device_loop en lv s ds')"
proof (induction ds arbitrary: st)
  case Nil
  show ?case by simp
next
  case (Cons d ds)
  obtain s r where step: "device_step en lv st d = (s, r)" by (cases "device_step en lv st d")
  show ?case using Cons.IH [of s] step by (cases r) simp_all
qed

lemma jump_box_connects_append:
  "jump_box_connects (xs @ ys) = jump_box_connects xs @ jump_box_connects ys"
  by (simp add: jump_box_connects_def)

lemma tunnel_closes_append: "tunnel_closes (xs @ ys) = tunnel_closes xs @ tunnel_closes ys"
  by (simp add: tunnel_closes_def)

lemma jump_planned_facts:
  assumes "use_jumpbox lv"
  shows "jump_box_connects (map ok (planned_calls en lv st d)) =
           (if jump_connected st then [] else [ok (jump_box_call lv)])"
    and "tunnel_closes (map ok (planned_calls en lv st d)) = [ok DisconnectViaJump]"
    and "Disconnect \<notin> fst ` set (map ok (planned_calls en lv st d))"
  using assms
  by (auto simp: planned_calls_def connect_calls_def work_calls_def closing_call_def
        jump_box_call_def tunnel_call_def ok_def jump_box_connects_def tunnel_closes_def)

lemma jump_step_success:
  assumes "use_jumpbox lv" and "attempted lv d"
      and "first_failure (events_since st (fst (device_step en lv st d))) = None"
  shows "device_step en lv st d = (try_state en lv st d, None)"
    and "events_since st (try_state en lv st d) = map ok (planned_calls en lv st d)"
    and "jump_connected (try_state en lv st d)"
proof -
  have ff: "first_failure (outcomes en (trace st) (planned_calls en lv st d)) = None"
    using step_first_failure [OF assms(2), of st en] assms(3) by simp
  then have o: "outcomes en (trace st) (planned_calls en lv st d) =
                  map ok (planned_calls en lv st d)"
    by (rule outcomes_ok)
  show "device_step en lv st d = (try_state en lv st d, None)"
    using assms(2) ff by (rule step_success)
  have "trace (try_state en lv st d) = trace st @ map ok (planned_calls en lv st d)"
    by (simp add: o)
  then show "events_since st (try_state en lv st d) = map ok (planned_calls en lv st d)"
    by (rule events_since_append)
  show "jump_connected (try_state en lv st d)"
  proof (cases "jump_connected st")
    case True
    with assms(1) show ?thesis by (simp add: try_state_def Let_def)
  next
    case False
    have "env_raises en (trace st) (jump_box_call lv) = None"
    proof (cases "env_raises en (trace st) (jump_box_call lv)")
      case None
      then show ?thesis .
    next
      case (Some e)
      with False assms(1) have
        "first_failure (outcomes en (trace st) (planned_calls en lv st d)) =
           Some (jump_box_call lv, e)"
        by (simp add: planned_calls_def connect_calls_def)
      with ff show ?thesis by simp
    qed
    with assms(1) show ?thesis by (simp add: try_state_def Let_def)
  qed
qed

lemma jump_loop_success:
  assumes "use_jumpbox lv"
  shows "first_failure (events_since st (fst (device_loop en lv st ds))) = None \<Longrightarrow>
     snd (device_loop en lv st ds) = None \<and>
     jump_box_connects (events_since st (fst (device_loop en lv st ds))) =
       (if jump_connected st \<or> \<not> list_ex (attempted lv) ds then []
        else [ok (jump_box_call lv)]) \<and>
     length (tunnel_closes (events_since st (fst (device_loop en lv st ds)))) =
       length (filter (attempted lv) ds) \<and>
     Disconnect \<notin> fst ` set (events_since st (fst (device_loop en lv st ds))) \<and>
     jump_connected (fst (device_loop en lv st ds)) =
       (jump_connected st \<or> list_ex (attempted lv) ds)"
proof (induction ds arbitrary: st)
  case Nil
  show ?case
    by (simp add: events_since_def jump_box_connects_def tunnel_closes_def
             del: events_since_append)
next
  case (Cons d ds)
  obtain s r where step: "device_step en lv st d = (s, r)" by (cases "device_step en lv st d")
  from step_trace [of en lv st d]
  have tr: "trace s = trace st @ events_since st s"
    unfolding step fst_conv by blast
  from loop_trace [of en lv s ds]
  have ltr: "trace (fst (device_loop en lv s ds)) =
               trace s @ events_since s (fst (device_loop en lv s ds))"
    by blast
  note t = events_since_trans [OF tr ltr]
  have r: "r = None"
  proof (cases r)
    case None
    then show ?thesis .
  next
    case (Some e)
    with step have "device_loop en lv st (d # ds) = (s, Some e)" by simp
    with Cons.prems have f: "first_failure (events_since st s) = None" by simp
    show ?thesis
    proof (cases "attempted lv d")
      case True
      from f have "first_failure (events_since st (fst (device_step en lv st d))) = None"
        unfolding step fst_conv .
      from jump_step_success(1) [OF assms True this] step show ?thesis by simp
    next
      case False
      from step_skipped [OF False, of en st] step show ?thesis by simp
    qed
  qed
  have eq: "device_loop en lv st (d # ds) = device_loop en lv s ds"
    using step r by simp
  from Cons.prems have "first_failure
      (events_since st s @ events_since s (fst (device_loop en lv s ds))) = None"
    unfolding eq t(1) .
  then have f1: "first_failure (events_since st s) = None"
    and f2: "first_failure (events_since s (fst (device_loop en lv s ds))) = None"
    by (simp_all add: first_failure_append split: option.splits)
  note ih = Cons.IH [OF f2]
  show ?case
  proof (cases "attempted lv d")
    case True
    from f1 have "first_failure (events_since st (fst (device_step en lv st d))) = None"
      unfolding step fst_conv .
    note j = jump_step_success [OF assms True this]
    from j(1) step have s: "s = try_state en lv st d" by simp
    have e1: "events_since st s = map ok (planned_calls en lv st d)"
      unfolding s by (rule j(2))
    have fl: "jump_connected s" unfolding s by (rule j(3))
    note p = jump_planned_facts [OF assms, of en st d]
    from ih fl True p(3) show ?thesis
      unfolding eq t(1) e1
      by (auto simp add: jump_box_connects_append tunnel_closes_append p(1,2)
               simp del: events_since_append)
  next
    case False
    from step_skipped [OF False, of en st] step have s: "s = st" by simp
    have e1: "events_since st st = []" by (simp add: events_since_def del: events_since_append)
    from ih False show ?thesis
      unfolding eq t(1) unfolding s e1 by (simp del: events_since_append)
  qed
qed

lemma filter_outcomes_none:
  assumes "\<forall>c \<in> set cs. \<not> P c"
  shows "filter (\<lambda>ev. P (fst ev)) (outcomes en tr cs) = []"
  using assms outcomes_calls [of en tr cs] by (auto simp: filter_empty_conv)

lemma connected_step_no_jump_connect:
  assumes "use_jumpbox lv" and "jump_connected st"
  shows "jump_box_connects (events_since st (fst (device_step en lv st d))) = []"
proof (cases "attempted lv d")
  case False
  then have "device_step en lv st d = (st, None)" by (rule step_skipped)
  then show ?thesis
    by (simp add: events_since_def jump_box_connects_def del: events_since_append)
next
  case True
  from step_trace_shape [where st = st and en = en, OF True] obtain rest where
    tr: "trace (fst (device_step en lv st d)) =
           trace st @ outcomes en (trace st) (planned_calls en lv st d) @ rest" and
    rest: "rest = [] \<or> (\<exists>rd. rest = [(Disconnect, rd)])"
    by blast
  from tr have ev: "events_since st (fst (device_step en lv st d)) =
           outcomes en (trace st) (planned_calls en lv st d) @ rest"
    by (rule events_since_append)
  have "\<forall>c \<in> set (planned_calls en lv st d). \<not> is_jump_box_connect c"
    using assms
    by (auto simp: planned_calls_def connect_calls_def work_calls_def closing_call_def
          tunnel_call_def)
  from filter_outcomes_none [OF this]
  have "jump_box_connects (outcomes en (trace st) (planned_calls en lv st d)) = []"
    by (simp add: jump_box_connects_def)
  moreover have "jump_box_connects rest = []"
    using rest by (auto simp: jump_box_connects_def)
  ultimately show ?thesis unfolding ev by (simp add: jump_box_connects_append)
qed

subsection \<open>Calls that are not session calls\<close>

lemma dialogue_append: "dialogue (xs @ ys) = dialogue xs @ dialogue ys"
  by (simp add: dialogue_def)

lemma call_for_not_dialogue: "call_for lv d c \<Longrightarrow> \<not> is_dialogue c"
  by (cases c) simp_all

lemma session_only_iff:
  "session_only st s \<longleftrightarrow>
     (\<exists>evs. trace s = trace st @ evs \<and> dialogue evs = []) \<and> settings s = settings st"
proof
  assume "session_only st s"
  then show "(\<exists>evs. trace s = trace st @ evs \<and> dialogue evs = []) \<and> settings s = settings st"
    unfolding session_only_def by blast
next
  assume r: "(\<exists>evs. trace s = trace st @ evs \<and> dialogue evs = []) \<and> settings s = settings st"
  then obtain evs where t: "trace s = trace st @ evs" and d: "dialogue evs = []" by blast
  from t have e: "events_since st s = evs" by (rule events_since_append)
  from t d r show "session_only st s" unfolding session_only_def e by blast
qed

lemma session_only_refl: "session_only st st"
  by (simp add: session_only_iff dialogue_def)

lemma session_only_trans:
  assumes "session_only st s" and "session_only s s'"
  shows "session_only st s'"
proof -
  from assms obtain e1 e2 where
    "trace s = trace st @ e1" "dialogue e1 = []" "trace s' = trace s @ e2" "dialogue e2 = []"
    and se: "settings s = settings st" "settings s' = settings s"
    unfolding session_only_iff by blast
  then have "trace s' = trace st @ (e1 @ e2) \<and> dialogue (e1 @ e2) = []"
    by (simp add: dialogue_append)
  with se show ?thesis unfolding session_only_iff by metis
qed

lemma session_only_call:
  assumes "\<not> is_dialogue c"
  shows "session_only st (fst (session_call en c st))"
  using assms by (simp add: session_only_iff session_call_eq dialogue_def)

lemma session_only_flag: "session_only st (st\<lparr>jump_connected := b\<rparr>)"
  by (simp add: session_only_iff dialogue_def)

lemma session_only_step: "session_only st (fst (device_step en lv st d))"
proof -
  from step_trace [of en lv st d]
  have tr: "trace (fst (device_step en lv st d)) =
              trace st @ events_since st (fst (device_step en lv st d))"
    and se: "settings (fst (device_step en lv st d)) = settings st"
    and cf: "\<forall>ev \<in> set (events_since st (fst (device_step en lv st d))). call_for lv d (fst ev)"
    by blast+
  from cf have "dialogue (events_since st (fst (device_step en lv st d))) = []"
    by (auto simp: dialogue_def filter_empty_conv dest: call_for_not_dialogue)
  with tr se show ?thesis unfolding session_only_iff by blast
qed

lemma session_only_loop: "session_only st (fst (device_loop en lv st ds))"
proof (induction ds arbitrary: st)
  case Nil
  show ?case by (simp add: session_only_refl)
next
  case (Cons d ds)
  obtain s r where step: "device_step en lv st d = (s, r)" by (cases "device_step en lv st d")
  from session_only_step [of st en lv d] have a: "session_only st s"
    unfolding step fst_conv .
  show ?case
  proof (cases r)
    case None
    with step have "device_loop en lv st (d # ds) = device_loop en lv s ds" by simp
    with session_only_trans [OF a Cons.IH [of s]] show ?thesis by simp
  next
    case (Some e)
    with step a show ?thesis by simp
  qed
qed

lemma session_only_final: "session_only st (fst (final_disconnect en st))"
  by (simp add: final_disconnect_def session_only_refl session_only_call)

lemma session_only_connect_loop: "session_only st (fst (connect_loop en lv0 st))"
proof -
  let ?c = "CreateOutputFilename (before_dot (env_script_name en) @ ''-LOG'') (Some False)"
  let ?s1 = "st\<lparr>jump_connected := False\<rparr>"
  let ?lv = "lv0\<lparr>failed_log :=
               env_filename en (trace ?s1) (before_dot (env_script_name en) @ ''-LOG'')
                 (Some False)\<rparr>"
  obtain s2 r2 where c: "session_call en ?c ?s1 = (s2, r2)"
    by (cases "session_call en ?c ?s1")
  have a: "session_only st s2"
    using session_only_trans [OF session_only_flag [of st False]
        session_only_call [of ?c ?s1 en]] c
    by simp
  show ?thesis
  proof (cases r2)
    case (Some e)
    with c a show ?thesis by (simp add: connect_loop_def Let_def)
  next
    case None
    obtain s3 r3 where l: "device_loop en ?lv s2 (env_devices en) = (s3, r3)"
      by (cases "device_loop en ?lv s2 (env_devices en)")
    from session_only_loop [of s2 en ?lv "env_devices en"] have "session_only s2 s3"
      unfolding l fst_conv .
    with a have b: "session_only st s3" by (rule session_only_trans)
    show ?thesis
    proof (cases r3)
      case (Some e)
      with c None l b show ?thesis by (simp add: connect_loop_def Let_def)
    next
      case n3: None
      from session_only_trans [OF b session_only_final [of s3 en]] c None l n3
      show ?thesis by (simp add: connect_loop_def Let_def)
    qed
  qed
qed

lemma jump_box_section_effect:
  "\<exists>evs. trace (fst (jump_box_section en cmd st)) = trace st @ evs \<and>
         dialogue evs = jump_box_dialogue en st"
  "map_of (settings (fst (jump_box_section en cmd st))) k = jump_box_settings en st k"
  "j_password (snd (jump_box_section en cmd st)) =
     env_prompt en (''JUMPBOX: Enter the PASSWORD for '' @ jumpbox_user_of en st) True"
  by (simp_all add: jump_box_section_def Let_def note_call_def settings_update_call_def
        settings_get_def stored_def dialogue_def jump_box_dialogue_def jump_box_settings_def
        jumpbox_host_of_def jumpbox_user_of_def jumpbox_end_of_def update_conv')

lemma same_settings:
  assumes "settings s = settings st"
  shows "jump_box_dialogue en s = jump_box_dialogue en st"
    and "jump_box_settings en s = jump_box_settings en st"
    and "jumpbox_user_of en s = jumpbox_user_of en st"
  using assms
  by (simp_all add: jump_box_dialogue_def jump_box_settings_def jumpbox_host_of_def
        jumpbox_user_of_def jumpbox_end_of_def stored_def fun_eq_iff)

subsection \<open>Files, log lines and reports\<close>

lemma unique_last:
  assumes "xs @ [z] = pre @ z # post" and "z \<notin> set xs"
  shows "pre = xs \<and> post = []"
proof (cases post rule: rev_cases)
  case Nil
  with assms(1) show ?thesis by simp
next
  case (snoc ys y)
  with assms(1) have "xs @ [z] = (pre @ z # ys) @ [y]" by simp
  then have "xs = pre @ z # ys" by (simp only: append1_eq_conv)
  with assms(2) show ?thesis by simp
qed

lemma step_files:
  "files (fst (device_step en lv st d)) =
     files st @ written (events_since st (fst (device_step en lv st d)))"
proof (cases "attempted lv d")
  case False
  then have "device_step en lv st d = (st, None)" by (rule step_skipped)
  then show ?thesis by (simp add: events_since_def del: events_since_append)
next
  case True
  from step_trace_shape [where st = st and en = en, OF True] obtain rest where
    tr: "trace (fst (device_step en lv st d)) =
           trace st @ outcomes en (trace st) (planned_calls en lv st d) @ rest" and
    rest: "rest = [] \<or> (\<exists>rd. rest = [(Disconnect, rd)])"
    by blast
  from tr have ev: "events_since st (fst (device_step en lv st d)) =
           outcomes en (trace st) (planned_calls en lv st d) @ rest"
    by (rule events_since_append)
  have w: "written rest = []" using rest by auto
  have "files (fst (device_step en lv st d)) =
          files st @ written (outcomes en (trace st) (planned_calls en lv st d))"
  proof (cases "first_failure (outcomes en (trace st) (planned_calls en lv st d))")
    case None
    with True show ?thesis by (simp add: step_success)
  next
    case (Some ce)
    obtain c e where ce: "ce = (c, e)" by (cases ce)
    show ?thesis
    proof (cases "caught e")
      case False
      with True Some ce show ?thesis by (simp add: step_uncaught)
    next
      case c: True
      show ?thesis
      proof (cases "use_jumpbox lv")
        case False
        with c Some ce show ?thesis by (simp add: step_caught_direct append_line_def)
      next
        case u: True
        with c Some ce True show ?thesis by (simp add: step_caught_jump_result)
      qed
    qed
  qed
  then show ?thesis unfolding ev by (simp add: written_append w)
qed

lemma closing_not_before:
  "closing_call lv \<notin>
     set (connect_calls lv st d @ work_calls en tr (enable d) (send_cmd lv))"
  by (simp add: closing_call_def connect_calls_def work_calls_def jump_box_call_def
        tunnel_call_def)

lemma written_connect_work:
  "written (map ok (connect_calls lv st d @
      work_calls en (trace st @ map ok (connect_calls lv st d)) (enable d) (send_cmd lv))) =
     [(output_name en (trace st @ map ok (connect_calls lv st d)) (enable d) (send_cmd lv),
       send_cmd lv)]"
  by (simp add: connect_calls_def work_calls_def ok_def jump_box_call_def tunnel_call_def
        written_append)






lemma connect_loop_after:
  assumes "session_call en (log_name_call en) (st0\<lparr>jump_connected := False\<rparr>) = (s2, None)"
      and "device_loop en (loop_locals en lv0 st0) s2 (env_devices en) = (s3, None)"
  shows "connect_loop en lv0 st0 = final_disconnect en s3"
  using assms by (simp add: connect_loop_def Let_def log_name_call_def loop_locals_def)

lemma final_disconnect_events:
  "events_since st (fst (final_disconnect en st)) =
     (if jump_connected st then [(Disconnect, env_raises en (trace st) Disconnect)] else [])"
  "trace (fst (final_disconnect en st)) =
     trace st @ events_since st (fst (final_disconnect en st))"
  by (simp_all add: final_disconnect_def session_call_eq events_since_def
           del: events_since_append)

lemma script_main_loop:
  assumes "\<not> env_connected en" and "env_devices en \<noteq> []"
      and "env_prompt en ''Enter the command to capture on each device.'' False \<noteq> []"
      and "env_raises en (trace (fst (before_loop en st))) (log_name_call en) = None"
  shows "script_main en st =
           and_then (device_loop en (run_locals en st) (run_start en st) (env_devices en))
             (final_disconnect en)"
proof -
  have "script_main en st = connect_loop en (snd (before_loop en st)) (fst (before_loop en st))"
    using assms(1-3)
    by (simp add: script_main_def before_loop_def Let_def split: prod.splits)
  also have "\<dots> = and_then
      (device_loop en (run_locals en st) (run_start en st) (env_devices en))
      (final_disconnect en)"
    using assms(4)
    by (simp add: connect_loop_def Let_def run_locals_def run_start_def loop_locals_def
          log_name_call_def session_call_eq)
  finally show ?thesis .
qed

lemma step_log:
  "\<exists>L. faillog (fst (device_step en lv st d)) = faillog st @ L"
proof (cases "attempted lv d")
  case False
  then show ?thesis by (simp add: step_skipped)
next
  case True
  show ?thesis
  proof (cases "first_failure (outcomes en (trace st) (planned_calls en lv st d))")
    case None
    with True show ?thesis by (simp add: step_success)
  next
    case (Some ce)
    obtain c e where ce: "ce = (c, e)" by (cases ce)
    show ?thesis
    proof (cases "caught e")
      case False
      with True Some ce show ?thesis by (simp add: step_uncaught)
    next
      case c: True
      show ?thesis
      proof (cases "use_jumpbox lv")
        case False
        with c Some ce show ?thesis by (simp add: step_caught_direct append_line_def)
      next
        case u: True
        with c Some ce True show ?thesis by (simp add: step_caught_jump_result)
      qed
    qed
  qed
qed

lemma planned_head: "is_connection_attempt (hd (planned_calls en lv st d))"
  by (simp add: planned_calls_def connect_calls_def jump_box_call_def tunnel_call_def)

lemma planned_completed:
  "planned_calls en lv st d =
     completed_calls lv d
       (output_name en (trace st @ map ok (connect_calls lv st d)) (enable d) (send_cmd lv)) \<or>
   planned_calls en lv st d =
     jump_box_call lv #
     completed_calls lv d
       (output_name en (trace st @ map ok (connect_calls lv st d)) (enable d) (send_cmd lv))"
  by (simp add: planned_calls_def connect_calls_def work_calls_def completed_calls_def
        target_call_def)

lemma step_complete:
  "turn_complete lv d (report_of st (fst (device_step en lv st d)))"
proof (cases "attempted lv d")
  case False
  then have "device_step en lv st d = (st, None)" by (rule step_skipped)
  with False show ?thesis
    by (simp add: report_of_def events_since_def del: events_since_append)
next
  case True
  let ?s = "fst (device_step en lv st d)"
  let ?T = "events_since st ?s"
  let ?o = "outcomes en (trace st) (planned_calls en lv st d)"
  from step_events [OF True, of st en] obtain rest where ev: "?T = ?o @ rest" by blast
  from outcomes_hd [where cs = "planned_calls en lv st d" and en = en and tr = "trace st",
      OF planned_nonempty]
  have ne: "?o \<noteq> []" by blast
  with ev have t1: "?T \<noteq> []" by simp
  from step_first_event [OF True, of st en] planned_head [of en lv st d]
  have t2: "is_connection_attempt (fst (hd ?T))" by simp
  from step_trace [of en lv st d]
  have t3: "list_all (\<lambda>ev. call_for lv d (fst ev)) ?T"
    by (simp add: list_all_iff del: events_since_append)
  have ff: "first_failure ?T = first_failure ?o"
    by (rule step_first_failure [OF True])
  have t4: "case first_failure ?T of
              None \<Rightarrow>
                drop (length (faillog st)) (faillog ?s) = [] \<and>
                map snd (drop (length (files st)) (files ?s)) = [send_cmd lv] \<and>
                (map fst ?T = completed_calls lv d (fst (hd (drop (length (files st)) (files ?s))))
                 \<or> map fst ?T =
                    jump_box_call lv #
                    completed_calls lv d (fst (hd (drop (length (files st)) (files ?s)))))
            | Some (c, e) \<Rightarrow>
                drop (length (faillog st)) (faillog ?s) =
                  (if caught e then [(failed_log lv, failure_line lv d e)] else [])"
  proof (cases "first_failure ?o")
    case None
    then have o: "?o = map ok (planned_calls en lv st d)" by (rule outcomes_ok)
    have s: "device_step en lv st d = (try_state en lv st d, None)"
      using True None by (rule step_success)
    have T: "?T = map ok (planned_calls en lv st d)"
      unfolding s fst_conv by (rule events_since_append) (simp add: o)
    have m: "map fst (map ok (planned_calls en lv st d)) = planned_calls en lv st d"
      by (simp add: ok_def comp_def)
    have F: "drop (length (files st)) (files ?s) =
        [(output_name en (trace st @ map ok (connect_calls lv st d)) (enable d) (send_cmd lv),
          send_cmd lv)]"
      unfolding s fst_conv by (simp add: o written_planned)
    have L: "drop (length (faillog st)) (faillog ?s) = []"
      unfolding s fst_conv by simp
    from planned_completed [of en lv st d] show ?thesis
      unfolding ff None option.case L F T m by simp
  next
    case (Some ce)
    obtain c e where ce: "ce = (c, e)" by (cases ce)
    have "drop (length (faillog st)) (faillog ?s) =
            (if caught e then [(failed_log lv, failure_line lv d e)] else [])"
    proof (cases "caught e")
      case False
      with True Some ce show ?thesis by (simp add: step_uncaught)
    next
      case c: True
      show ?thesis
      proof (cases "use_jumpbox lv")
        case False
        with c Some ce show ?thesis
          by (simp add: step_caught_direct append_line_def failure_line_def)
      next
        case u: True
        with c Some ce True show ?thesis
          by (simp add: step_caught_jump_result failure_line_def)
      qed
    qed
    then show ?thesis unfolding ff Some ce by simp
  qed
  from True t1 t2 t3 t4 show ?thesis
    unfolding report_of_def turn_complete.simps by simp
qed

lemma reports_turns: "map fst (reports en lv st ds) = turns en lv st ds"
proof (induction ds arbitrary: st)
  case Nil
  show ?case by simp
next
  case (Cons d ds)
  obtain s r where step: "device_step en lv st d = (s, r)" by (cases "device_step en lv st d")
  show ?case using Cons.IH [of s] step by (cases r) (simp_all add: report_of_def)
qed

lemma reports_complete:
  "i < length (reports en lv st ds) \<Longrightarrow> turn_complete lv (ds ! i) (reports en lv st ds ! i)"
proof (induction ds arbitrary: st i)
  case Nil
  then show ?case by simp
next
  case (Cons d ds)
  obtain s r where step: "device_step en lv st d = (s, r)" by (cases "device_step en lv st d")
  from step_complete [of lv d st en]
  have here: "turn_complete lv d (report_of st s)"
    unfolding step fst_conv .
  show ?case
  proof (cases r)
    case None
    then have tu: "reports en lv st (d # ds) = report_of st s # reports en lv s ds"
      using step by simp
    show ?thesis
    proof (cases i)
      case 0
      with here show ?thesis unfolding tu by simp
    next
      case (Suc j)
      with Cons.prems have "j < length (reports en lv s ds)"
        unfolding tu by simp
      from Cons.IH [OF this] Suc show ?thesis unfolding tu by simp
    qed
  next
    case (Some e)
    then have tu: "reports en lv st (d # ds) = [report_of st s]"
      using step by simp
    from Cons.prems have "i = 0" unfolding tu by simp
    with here show ?thesis unfolding tu by simp
  qed
qed

lemma step_settled:
  assumes "device_step en lv st d = (s, None)"
  shows "turn_settled (report_of st s)"
proof (cases "attempted lv d")
  case False
  then have "device_step en lv st d = (st, None)" by (rule step_skipped)
  with assms have "s = st" by simp
  then show ?thesis by (simp add: report_of_def events_since_def del: events_since_append)
next
  case True
  have ff: "first_failure (events_since st s) =
            first_failure (outcomes en (trace st) (planned_calls en lv st d))"
    using step_first_failure [OF True, of st en] assms by simp
  show ?thesis
  proof (cases "first_failure (outcomes en (trace st) (planned_calls en lv st d))")
    case None
    then show ?thesis unfolding report_of_def turn_settled.simps ff by simp
  next
    case (Some ce)
    obtain c e where ce: "ce = (c, e)" by (cases ce)
    have c: "caught e"
    proof (rule ccontr)
      assume "\<not> caught e"
      with True Some ce have "device_step en lv st d = (try_state en lv st d, Some e)"
        by (simp add: step_uncaught)
      with assms show False by simp
    qed
    from step_complete [of lv d st en] assms
    have "turn_complete lv d (report_of st s)" by simp
    with True c have "length (drop (length (faillog st)) (faillog s)) = 1"
      unfolding report_of_def turn_complete.simps ff Some ce by simp
    with c show ?thesis unfolding report_of_def turn_settled.simps ff Some ce by simp
  qed
qed

lemma reports_settled:
  "Suc i < length (reports en lv st ds) \<Longrightarrow> turn_settled (reports en lv st ds ! i)"
proof (induction ds arbitrary: st i)
  case Nil
  then show ?case by simp
next
  case (Cons d ds)
  obtain s r where step: "device_step en lv st d = (s, r)" by (cases "device_step en lv st d")
  show ?case
  proof (cases r)
    case None
    then have tu: "reports en lv st (d # ds) = report_of st s # reports en lv s ds"
      using step by simp
    from step None have here: "turn_settled (report_of st s)"
      by (simp add: step_settled)
    show ?thesis
    proof (cases i)
      case 0
      with here show ?thesis unfolding tu by simp
    next
      case (Suc j)
      with Cons.prems have "Suc j < length (reports en lv s ds)"
        unfolding tu by simp
      from Cons.IH [OF this] Suc show ?thesis unfolding tu by simp
    qed
  next
    case (Some e)
    then have tu: "reports en lv st (d # ds) = [report_of st s]"
      using step by simp
    from Cons.prems show ?thesis unfolding tu by simp
  qed
qed

lemma reports_log:
  "faillog (fst (device_loop en lv st ds)) =
     faillog st @ concat (map (\<lambda>rep. fst (snd rep)) (reports en lv st ds))"
proof (induction ds arbitrary: st)
  case Nil
  show ?case by simp
next
  case (Cons d ds)
  obtain s r where step: "device_step en lv st d = (s, r)" by (cases "device_step en lv st d")
  from step_log [of en lv st d] obtain L where l: "faillog s = faillog st @ L"
    unfolding step fst_conv by blast
  then have d: "drop (length (faillog st)) (faillog s) = L" by simp
  show ?case
    using Cons.IH [of s] step l d by (cases r) (simp_all add: report_of_def)
qed

subsection \<open>Launch checks\<close>

text \<open>
  C6. Launched on a connected session, \<open>script_main\<close> raises \<open>ScriptError\<close> at once: the
  only calls made are \<open>get_main_session\<close> and \<open>is_connected\<close>, so the device list is
  not loaded, the operator is not prompted and no connection is attempted; settings,
  files and log are as they were.
\<close>

theorem connected_tab_aborts:
  "env_connected en \<Longrightarrow>
   script_main en st =
     (st\<lparr>trace := trace st @ [(GetMainSession, None), (IsConnected, None)]\<rparr>,
      Some (ScriptError ''This script must be launched in a not-connected tab.''))"
  by (simp add: script_main_def note_call_def)

theorem connected_tab_aborts_witness:
  "env_connected (calm\<lparr>env_connected := True\<rparr>) \<and>
   script_main (calm\<lparr>env_connected := True\<rparr>) fresh =
     (fresh\<lparr>trace := [(GetMainSession, None), (IsConnected, None)]\<rparr>,
      Some (ScriptError ''This script must be launched in a not-connected tab.''))"
proof -
  have c: "env_connected (calm\<lparr>env_connected := True\<rparr>)" by simp
  show ?thesis
    using c connected_tab_aborts [OF c, of fresh] by (simp add: fresh_def)
qed

text \<open>
  C5. On a session that is not connected, an empty device list or an empty command makes
  \<open>script_main\<close> return without raising. The calls made are the launch check, the
  loading of the list and, for a list that is not empty, the command prompt: no direct
  connection, jump-box connection or tunnel is attempted, and nothing else changes.
\<close>

theorem empty_input_returns_early:
  assumes "\<not> env_connected en"
      and "env_devices en = [] \<or>
           env_prompt en ''Enter the command to capture on each device.'' False = []"
  shows "script_main en st =
           (st\<lparr>trace := trace st @
                  [(GetMainSession, None), (IsConnected, None), (ImportDeviceList, None)] @
                  (if env_devices en = [] then []
                   else [(PromptWindow ''Enter the command to capture on each device.'' False,
                          None)])\<rparr>,
            None) \<and>
         connection_attempts (events_since st (fst (script_main en st))) = []"
  using assms
  by (auto simp: script_main_def note_call_def Let_def connection_attempts_def
       events_since_def)

theorem empty_input_returns_early_witness:
  "\<not> env_connected (calm\<lparr>env_prompt := (\<lambda>m h. [])\<rparr>) \<and>
   env_prompt (calm\<lparr>env_prompt := (\<lambda>m h. [])\<rparr>)
     ''Enter the command to capture on each device.'' False = [] \<and>
   snd (script_main (calm\<lparr>env_prompt := (\<lambda>m h. [])\<rparr>) fresh) = None \<and>
   connection_attempts
     (events_since fresh (fst (script_main (calm\<lparr>env_prompt := (\<lambda>m h. [])\<rparr>) fresh))) = []"
proof -
  have a: "\<not> env_connected (calm\<lparr>env_prompt := (\<lambda>m h. [])\<rparr>)"
    by (simp add: calm_def)
  have b: "env_prompt (calm\<lparr>env_prompt := (\<lambda>m h. [])\<rparr>)
             ''Enter the command to capture on each device.'' False = []"
    by simp
  from empty_input_returns_early [OF a disjI2, OF b, of fresh] a b
  show ?thesis by (simp add: calm_def connection_attempts_def)
qed

subsection \<open>Devices the jump box cannot reach\<close>

text \<open>
  C9. With the jump box in use, a device whose protocol in lower case neither contains
  \<open>ssh\<close> nor equals \<open>telnet\<close> is skipped: the loop body returns the state it was given,
  so no call is made (no connection, no tunnel), no output file and no log line is
  written, and \<open>jump_connected\<close> keeps its value.
\<close>

theorem other_protocol_skipped:
  assumes "use_jumpbox lv"
      and "\<not> contains ''ssh'' (lower (protocol d))"
      and "lower (protocol d) \<noteq> ''telnet''"
  shows "device_step en lv st d = (st, None)"
  using assms by (simp add: device_step_def)

theorem other_protocol_skipped_witness:
  "use_jumpbox lv_jump \<and> \<not> contains ''ssh'' (lower (protocol dev_r3)) \<and>
   lower (protocol dev_r3) \<noteq> ''telnet'' \<and>
   device_step calm lv_jump fresh dev_r3 = (fresh, None)"
proof -
  have a: "use_jumpbox lv_jump" by (simp add: lv_jump_def)
  have b: "\<not> contains ''ssh'' (lower (protocol dev_r3))" by code_simp
  have c: "lower (protocol dev_r3) \<noteq> ''telnet''" by code_simp
  from other_protocol_skipped [OF a b c] a b c show ?thesis by simp
qed

subsection \<open>A device's output file\<close>

text \<open>
  C1 (as amended). Take a device for which the loop body has a branch (always in the
  direct path; with the jump box, a protocol that contains \<open>ssh\<close> or is \<open>telnet\<close>) and
  suppose that its connection calls and the four calls of \<open>per_device_work\<close> return: no
  call of the turn raises, or the first one to raise is the closing disconnect. Then the
  turn begins with the connection calls followed by \<open>start_cisco_session\<close>,
  \<open>create_output_filename\<close> on the command text, \<open>write_output_to_file\<close> to the name
  obtained and \<open>end_cisco_session\<close>, all of them returning, and exactly one output file is
  added, under that name and holding the output of the command. When the closing
  disconnect returns too, the planned calls are all the calls of the turn, the loop body
  returns normally and nothing is added to the failure log.
\<close>

theorem successful_device_one_file:
  assumes "attempted lv d"
      and "device_step en lv st d = (st', r)"
      and "work_returned lv (events_since st st')"
  shows "files st' =
           files st @
           [(output_name en (trace st @ map ok (connect_calls lv st d)) (enable d) (send_cmd lv),
             send_cmd lv)] \<and>
         take (length (connect_calls lv st d) + 4) (events_since st st') =
           map ok (connect_calls lv st d @
             work_calls en (trace st @ map ok (connect_calls lv st d))
               (enable d) (send_cmd lv)) \<and>
         (first_failure (events_since st st') = None \<longrightarrow>
            r = None \<and> events_since st st' = map ok (planned_calls en lv st d) \<and>
            faillog st' = faillog st)"
proof -
  let ?cw = "connect_calls lv st d @
             work_calls en (trace st @ map ok (connect_calls lv st d)) (enable d) (send_cmd lv)"
  have len: "length ?cw = length (connect_calls lv st d) + 4"
    by (simp add: work_calls_def)
  have plan: "planned_calls en lv st d = ?cw @ [closing_call lv]"
    by (simp add: planned_calls_def)
  have ffe: "first_failure (events_since st st') =
             first_failure (outcomes en (trace st) (planned_calls en lv st d))"
    using step_first_failure [OF assms(1), of st en] assms(2) by simp
  from step_trace_shape [where st = st and en = en, OF assms(1)] assms(2) obtain rest where
    tr: "trace st' = trace st @ outcomes en (trace st) (planned_calls en lv st d) @ rest" and
    rest: "rest = [] \<or> (\<exists>rd. rest = [(Disconnect, rd)])"
    by auto
  from tr have ev: "events_since st st' =
      outcomes en (trace st) (planned_calls en lv st d) @ rest"
    by (rule events_since_append)
  have wr: "written rest = []" using rest by auto
  have fi: "files st' = files st @ written (events_since st st')"
    using step_files [of en lv st d] assms(2) by simp
  show ?thesis
  proof (cases "first_failure (outcomes en (trace st) (planned_calls en lv st d))")
    case None
    then have o: "outcomes en (trace st) (planned_calls en lv st d) =
                    map ok (planned_calls en lv st d)"
      by (rule outcomes_ok)
    have "device_step en lv st d = (try_state en lv st d, None)"
      using assms(1) None by (rule step_success)
    with assms(2) have s: "st' = try_state en lv st d" "r = None" by simp_all
    have e: "events_since st st' = map ok (planned_calls en lv st d)"
      by (simp add: s o)
    have "take (length (connect_calls lv st d) + 4) (events_since st st') = map ok ?cw"
      unfolding e plan len [symmetric] by simp
    moreover have "files st' = files st @
           [(output_name en (trace st @ map ok (connect_calls lv st d)) (enable d) (send_cmd lv),
             send_cmd lv)]"
      by (simp add: s o written_planned)
    ultimately show ?thesis using s e by simp
  next
    case (Some ce)
    obtain c e where ce: "ce = (c, e)" by (cases ce)
    from assms(3) Some ce have c: "c = closing_call lv"
      by (simp add: work_returned_def ffe)
    from outcomes_fail [of en "trace st" "planned_calls en lv st d" c e] Some ce
    obtain pre post where
      pl: "planned_calls en lv st d = pre @ c # post" and
      o: "outcomes en (trace st) (planned_calls en lv st d) = map ok pre @ [(c, Some e)]"
      by auto
    from pl have "?cw @ [closing_call lv] = pre @ closing_call lv # post"
      unfolding plan c .
    from unique_last [OF this closing_not_before] have pre: "pre = ?cw" by simp
    have e: "events_since st st' = map ok ?cw @ ((c, Some e) # rest)"
      unfolding ev o pre by simp
    have w: "written ((c, Some e) # rest) = written rest" by (cases c) simp_all
    have t: "take (length (connect_calls lv st d) + 4) (events_since st st') = map ok ?cw"
      unfolding e len [symmetric] by simp
    have "written (events_since st st') = written (map ok ?cw)"
      unfolding e by (simp only: written_append w wr append_Nil2)
    with fi have "files st' = files st @
           [(output_name en (trace st @ map ok (connect_calls lv st d)) (enable d) (send_cmd lv),
             send_cmd lv)]"
      by (simp only: written_connect_work)
    with t Some ffe show ?thesis by simp
  qed
qed

theorem successful_device_one_file_witness:
  "attempted lv_direct dev_r1 \<and>
   work_returned lv_direct
     (events_since fresh (fst (device_step drops_at_close lv_direct fresh dev_r1))) \<and>
   first_failure (events_since fresh (fst (device_step drops_at_close lv_direct fresh dev_r1))) =
     Some (Disconnect, ConnectError ''gone'') \<and>
   files (fst (device_step drops_at_close lv_direct fresh dev_r1)) =
     [(''show version-xx.txt'', ''show version'')] \<and>
   work_returned lv_direct
     (events_since fresh (fst (device_step calm lv_direct fresh dev_r1))) \<and>
   first_failure (events_since fresh (fst (device_step calm lv_direct fresh dev_r1))) = None \<and>
   snd (device_step calm lv_direct fresh dev_r1) = None \<and>
   files (fst (device_step calm lv_direct fresh dev_r1)) =
     [(''show version-xx.txt'', ''show version'')] \<and>
   faillog (fst (device_step calm lv_direct fresh dev_r1)) = []"
proof -
  have a: "attempted lv_direct dev_r1" by code_simp
  have b: "work_returned lv_direct
     (events_since fresh (fst (device_step drops_at_close lv_direct fresh dev_r1)))"
    by code_simp
  have c: "device_step drops_at_close lv_direct fresh dev_r1 =
             (fst (device_step drops_at_close lv_direct fresh dev_r1),
              snd (device_step drops_at_close lv_direct fresh dev_r1))"
    by simp
  have f: "first_failure
      (events_since fresh (fst (device_step drops_at_close lv_direct fresh dev_r1))) =
     Some (Disconnect, ConnectError ''gone'')"
    by code_simp
  have e: "files fresh @
             [(output_name drops_at_close
                 (trace fresh @ map ok (connect_calls lv_direct fresh dev_r1))
                 (enable dev_r1) (send_cmd lv_direct), send_cmd lv_direct)] =
           [(''show version-xx.txt'', ''show version'')]"
    by code_simp
  from successful_device_one_file [OF a c b]
  have x: "files (fst (device_step drops_at_close lv_direct fresh dev_r1)) =
          [(''show version-xx.txt'', ''show version'')]"
    unfolding e by blast
  have b': "work_returned lv_direct
     (events_since fresh (fst (device_step calm lv_direct fresh dev_r1)))"
    by code_simp
  have c': "device_step calm lv_direct fresh dev_r1 =
             (fst (device_step calm lv_direct fresh dev_r1),
              snd (device_step calm lv_direct fresh dev_r1))"
    by simp
  have f': "first_failure
      (events_since fresh (fst (device_step calm lv_direct fresh dev_r1))) = None"
    by code_simp
  have e': "files fresh @
             [(output_name calm
                 (trace fresh @ map ok (connect_calls lv_direct fresh dev_r1))
                 (enable dev_r1) (send_cmd lv_direct), send_cmd lv_direct)] =
           [(''show version-xx.txt'', ''show version'')]"
    by code_simp
  have g: "faillog fresh = []" by code_simp
  note t = successful_device_one_file [OF a c' b']
  from t have y: "files (fst (device_step calm lv_direct fresh dev_r1)) =
          [(''show version-xx.txt'', ''show version'')]"
    unfolding e' by blast
  from t f' have z: "snd (device_step calm lv_direct fresh dev_r1) = None"
    and w: "faillog (fst (device_step calm lv_direct fresh dev_r1)) = faillog fresh"
    by blast+
  from w have w': "faillog (fst (device_step calm lv_direct fresh dev_r1)) = []"
    unfolding g .
  from a b f x b' f' z y w' show ?thesis by blast
qed

text \<open>
  C1 as stated does not hold: a successful connection alone does not give an output file.
  Here \<open>connect\<close> returns and \<open>start_cisco_session\<close> raises \<open>InteractionError\<close>; the
  handler logs the failure and no file is written.
\<close>

theorem connected_device_without_file:
  "snd (device_step stuck_at_start lv_direct fresh dev_r1) = None \<and>
   trace (fst (device_step stuck_at_start lv_direct fresh dev_r1)) =
     [(Connect ''r1'' ''admin'' ''pw1'' ''SSH2'', None),
      (StartCiscoSession ''en1'', Some (InteractionError ''no prompt ''))] \<and>
   files (fst (device_step stuck_at_start lv_direct fresh dev_r1)) = [] \<and>
   faillog (fst (device_step stuck_at_start lv_direct fresh dev_r1)) =
     [(''m_save_output-LOG.txt'', ''Failure on r1: no prompt'' @ newline)]"
  by code_simp

subsection \<open>A failed device\<close>




subsection \<open>Failures behind the jump box\<close>

text \<open>
  C3 (as amended). With the jump box in use, suppose that the first call to fail in a
  device's turn raises \<open>ConnectError\<close> or \<open>InteractionError\<close>. Then the failure is logged,
  and the last call of the turn is \<open>session.disconnect()\<close>, which closes the whole
  session, the jump box included. When that call returns, \<open>jump_connected\<close> is false, the
  loop goes on, and the first call made for the next device that the jump box can reach is
  \<open>connect_ssh\<close> to the jump box. When that call raises, \<open>jump_connected\<close> keeps the value
  it had when the handler was entered, and the exception leaves the loop at this device.
\<close>

theorem jump_failure_disconnects:
  assumes "use_jumpbox lv"
      and "device_step en lv st d = (st', r)"
      and "first_failure (events_since st st') = Some (c, e)"
      and "caught e"
      and "attempted lv d'"
  shows "faillog st' =
           faillog st @ [(failed_log lv, connect_failed_line (hostname d) (message e))] \<and>
         last (trace st') = (Disconnect, r) \<and>
         (r = None \<longrightarrow>
            \<not> jump_connected st' \<and>
            device_loop en lv st (d # ds) = device_loop en lv st' ds \<and>
            hd (events_since st' (fst (device_step en lv st' d'))) =
              (jump_box_call lv, env_raises en (trace st') (jump_box_call lv))) \<and>
         (r \<noteq> None \<longrightarrow>
            jump_connected st' = jump_connected (try_state en lv st d) \<and>
            device_loop en lv st (d # ds) = (st', r))"
proof -
  have att: "attempted lv d"
  proof (rule ccontr)
    assume "\<not> attempted lv d"
    then have "device_step en lv st d = (st, None)" by (rule step_skipped)
    with assms(2,3) show False by (simp add: events_since_def)
  qed
  have ff: "first_failure (outcomes en (trace st) (planned_calls en lv st d)) = Some (c, e)"
    using step_first_failure [OF att, of st en] assms(2,3) by simp
  from step_caught_jump_result [OF assms(1) att ff assms(4)] assms(2)
  have st': "st' = (try_state en lv st d)
            \<lparr>faillog := faillog st @
               [(failed_log lv, connect_failed_line (hostname d) (message e))],
             trace := trace (try_state en lv st d) @
               [(Disconnect, env_raises en (trace (try_state en lv st d)) Disconnect)],
             jump_connected :=
               (env_raises en (trace (try_state en lv st d)) Disconnect \<noteq> None \<and>
                jump_connected (try_state en lv st d))\<rparr>"
    and r: "r = env_raises en (trace (try_state en lv st d)) Disconnect"
    by simp_all
  have flag: "r = None \<longrightarrow> \<not> jump_connected st'"
    by (simp add: st' r)
  have keep: "r \<noteq> None \<longrightarrow> jump_connected st' = jump_connected (try_state en lv st d)"
    by (simp add: st' r)
  have go: "r = None \<longrightarrow> device_loop en lv st (d # ds) = device_loop en lv st' ds"
    using assms(2) by simp
  have stop: "r \<noteq> None \<longrightarrow> device_loop en lv st (d # ds) = (st', r)"
    using assms(2) by auto
  have "r = None \<longrightarrow> hd (planned_calls en lv st' d') = jump_box_call lv"
    using flag assms(1) by (simp add: planned_calls_def connect_calls_def)
  with step_first_event [OF assms(5), of st' en]
  have first: "r = None \<longrightarrow>
      hd (events_since st' (fst (device_step en lv st' d'))) =
        (jump_box_call lv, env_raises en (trace st') (jump_box_call lv))"
    by simp
  have log: "faillog st' =
      faillog st @ [(failed_log lv, connect_failed_line (hostname d) (message e))]"
    by (simp add: st')
  have last: "last (trace st') = (Disconnect, r)"
    by (simp add: st' r)
  from log last flag first keep go stop show ?thesis by blast
qed

theorem jump_failure_disconnects_witness:
  "use_jumpbox lv_jump \<and> attempted lv_jump dev_r2 \<and>
   caught (ConnectError ''refused'') \<and>
   first_failure
     (events_since fresh (fst (device_step tunnel_refused lv_jump fresh dev_r1))) =
     Some (SshViaJump ''r1'' ''admin'' ''pw1'', ConnectError ''refused'') \<and>
   snd (device_step tunnel_refused lv_jump fresh dev_r1) = None \<and>
   faillog (fst (device_step tunnel_refused lv_jump fresh dev_r1)) =
     [(''m_save_output-LOG.txt'', ''Connect to r1 failed: refused'' @ newline)] \<and>
   last (trace (fst (device_step tunnel_refused lv_jump fresh dev_r1))) = (Disconnect, None) \<and>
   \<not> jump_connected (fst (device_step tunnel_refused lv_jump fresh dev_r1)) \<and>
   device_loop tunnel_refused lv_jump fresh [dev_r1, dev_r2] =
     device_loop tunnel_refused lv_jump
       (fst (device_step tunnel_refused lv_jump fresh dev_r1)) [dev_r2] \<and>
   fst (hd (events_since (fst (device_step tunnel_refused lv_jump fresh dev_r1))
         (fst (device_step tunnel_refused lv_jump
                 (fst (device_step tunnel_refused lv_jump fresh dev_r1)) dev_r2)))) =
     jump_box_call lv_jump \<and>
   first_failure
     (events_since fresh (fst (device_step both_refused lv_jump fresh dev_r1))) =
     Some (SshViaJump ''r1'' ''admin'' ''pw1'', ConnectError ''refused'') \<and>
   snd (device_step both_refused lv_jump fresh dev_r1) = Some (ConnectError ''refused'') \<and>
   device_loop both_refused lv_jump fresh [dev_r1, dev_r2] =
     (fst (device_step both_refused lv_jump fresh dev_r1), Some (ConnectError ''refused''))"
proof -
  let ?s = "fst (device_step tunnel_refused lv_jump fresh dev_r1)"
  let ?b = "fst (device_step both_refused lv_jump fresh dev_r1)"
  have a: "use_jumpbox lv_jump" by code_simp
  have b: "device_step tunnel_refused lv_jump fresh dev_r1 =
             (?s, snd (device_step tunnel_refused lv_jump fresh dev_r1))"
    by simp
  have c: "first_failure (events_since fresh ?s) =
             Some (SshViaJump ''r1'' ''admin'' ''pw1'', ConnectError ''refused'')"
    by code_simp
  have d: "caught (ConnectError ''refused'')" by simp
  have e: "attempted lv_jump dev_r2" by code_simp
  have n: "snd (device_step tunnel_refused lv_jump fresh dev_r1) = None" by code_simp
  have l: "faillog fresh @
             [(failed_log lv_jump,
               connect_failed_line (hostname dev_r1) (message (ConnectError ''refused'')))] =
           [(''m_save_output-LOG.txt'', ''Connect to r1 failed: refused'' @ newline)]"
    by code_simp
  note t = jump_failure_disconnects [OF a b c d e, where ds = "[dev_r2]"]
  from t have t1: "faillog ?s =
      [(''m_save_output-LOG.txt'', ''Connect to r1 failed: refused'' @ newline)]"
    unfolding l by blast
  from t have t2: "last (trace ?s) = (Disconnect, None)"
    unfolding n by blast
  from t n have t3: "\<not> jump_connected ?s"
    and t4: "device_loop tunnel_refused lv_jump fresh [dev_r1, dev_r2] =
               device_loop tunnel_refused lv_jump ?s [dev_r2]"
    and t5: "hd (events_since ?s (fst (device_step tunnel_refused lv_jump ?s dev_r2))) =
               (jump_box_call lv_jump, env_raises tunnel_refused (trace ?s) (jump_box_call lv_jump))"
    by blast+
  from t5 have t6: "fst (hd (events_since ?s (fst (device_step tunnel_refused lv_jump ?s dev_r2)))) =
      jump_box_call lv_jump"
    by (simp only: fst_conv)
  have b': "device_step both_refused lv_jump fresh dev_r1 =
             (?b, snd (device_step both_refused lv_jump fresh dev_r1))"
    by simp
  have c': "first_failure (events_since fresh ?b) =
             Some (SshViaJump ''r1'' ''admin'' ''pw1'', ConnectError ''refused'')"
    by code_simp
  have n': "snd (device_step both_refused lv_jump fresh dev_r1) = Some (ConnectError ''refused'')"
    by code_simp
  note u = jump_failure_disconnects [OF a b' c' d e, where ds = "[dev_r2]"]
  from u n' have "device_loop both_refused lv_jump fresh [dev_r1, dev_r2] =
      (?b, snd (device_step both_refused lv_jump fresh dev_r1))"
    by (metis option.distinct(1))
  then have u1: "device_loop both_refused lv_jump fresh [dev_r1, dev_r2] =
      (?b, Some (ConnectError ''refused''))"
    unfolding n' .
  from a e d c n t1 t2 t3 t4 t6 c' n' u1 show ?thesis by blast
qed

text \<open>
  C3 as stated does not hold on every error: when the tunnel to the device is refused and
  the handler's \<open>disconnect\<close> raises too, the failure is logged, but \<open>jump_connected\<close> is
  still set and the exception ends the loop.
\<close>

theorem flag_kept_when_disconnect_raises:
  "snd (device_step both_refused lv_jump fresh dev_r1) = Some (ConnectError ''refused'') \<and>
   first_failure (events_since fresh (fst (device_step both_refused lv_jump fresh dev_r1))) =
     Some (SshViaJump ''r1'' ''admin'' ''pw1'', ConnectError ''refused'') \<and>
   faillog (fst (device_step both_refused lv_jump fresh dev_r1)) =
     [(''m_save_output-LOG.txt'', ''Connect to r1 failed: refused'' @ newline)] \<and>
   last (trace (fst (device_step both_refused lv_jump fresh dev_r1))) =
     (Disconnect, Some (ConnectError ''refused'')) \<and>
   jump_connected (fst (device_step both_refused lv_jump fresh dev_r1))"
  by code_simp

subsection \<open>Interaction failures in the direct path\<close>

text \<open>
  C10. In the direct path, suppose that the first call to fail in a device's turn is one
  of the four calls of \<open>per_device_work\<close> and raises \<open>InteractionError\<close>. Then \<open>connect\<close>
  had returned, the failing call is the last call of the turn, the line
  \<open>Failure on host: message\<close> is appended to the failure log, \<open>disconnect\<close> is not called
  in the turn, and the loop goes on with the next device: the session that \<open>connect\<close>
  opened has not been closed by the script when the next device is taken up.
\<close>

theorem direct_work_failure_no_disconnect:
  assumes "\<not> use_jumpbox lv"
      and "device_step en lv st d = (st', r)"
      and "first_failure (events_since st st') = Some (c, InteractionError m)"
      and "c \<in> set (work_calls en (trace st @ map ok (connect_calls lv st d))
                      (enable d) (send_cmd lv))"
  shows "r = None \<and>
         faillog st' = faillog st @ [(failed_log lv, failure_on_line (hostname d) m)] \<and>
         hd (events_since st st') =
           ok (Connect (hostname d) (username d) (password d) (protocol d)) \<and>
         last (trace st') = (c, Some (InteractionError m)) \<and>
         Disconnect \<notin> fst ` set (events_since st st') \<and>
         device_loop en lv st (d # ds) = device_loop en lv st' ds"
proof -
  have att: "attempted lv d" using assms(1) by (simp add: attempted_def)
  have ff: "first_failure (outcomes en (trace st) (planned_calls en lv st d)) =
              Some (c, InteractionError m)"
    using step_first_failure [OF att, of st en] assms(2,3) by simp
  from step_caught_direct [OF assms(1) ff] assms(2)
  have st': "st' = append_line (failed_log lv) (failure_on_line (hostname d) m)
                     (try_state en lv st d)" and r: "r = None"
    by simp_all
  from outcomes_fail [OF ff] obtain pre post where
    pl: "planned_calls en lv st d = pre @ c # post" and
    ev: "outcomes en (trace st) (planned_calls en lv st d) =
           map ok pre @ [(c, Some (InteractionError m))]"
    by blast
  have plan: "planned_calls en lv st d =
                Connect (hostname d) (username d) (password d) (protocol d) #
                work_calls en (trace st @ map ok (connect_calls lv st d))
                  (enable d) (send_cmd lv) @ [Disconnect]"
    using assms(1) by (simp add: planned_calls_def connect_calls_def closing_call_def)
  have c1: "c \<noteq> Connect (hostname d) (username d) (password d) (protocol d)"
    and c2: "c \<noteq> Disconnect"
    using assms(4) by (auto simp: work_calls_def)
  have "pre @ c # post =
          (Connect (hostname d) (username d) (password d) (protocol d) #
           work_calls en (trace st @ map ok (connect_calls lv st d))
             (enable d) (send_cmd lv)) @ [Disconnect]"
    using pl plan by simp
  from before_last [OF this c2] have nd: "Disconnect \<notin> set pre"
    by (simp add: work_calls_def)
  from after_first [OF pl [symmetric, unfolded plan] c1]
  have hd: "pre \<noteq> []" "hd pre = Connect (hostname d) (username d) (password d) (protocol d)"
    by simp_all
  have evs: "events_since st st' = map ok pre @ [(c, Some (InteractionError m))]"
    by (simp add: st' append_line_def ev)
  have "hd (events_since st st') =
          ok (Connect (hostname d) (username d) (password d) (protocol d))"
    using hd by (simp add: evs hd_map)
  moreover have "Disconnect \<notin> fst ` set (events_since st st')"
    using nd c2 by (auto simp: evs ok_def)
  moreover have "last (trace st') = (c, Some (InteractionError m))"
    by (simp add: st' append_line_def ev)
  moreover have "device_loop en lv st (d # ds) = device_loop en lv st' ds"
    using assms(2) r by simp
  ultimately show ?thesis by (simp add: r st' append_line_def)
qed

theorem direct_work_failure_no_disconnect_witness:
  "\<not> use_jumpbox lv_direct \<and>
   first_failure
     (events_since fresh (fst (device_step stuck_at_start lv_direct fresh dev_r1))) =
     Some (StartCiscoSession ''en1'', InteractionError ''no prompt '') \<and>
   StartCiscoSession ''en1'' \<in>
     set (work_calls stuck_at_start
            (trace fresh @ map ok (connect_calls lv_direct fresh dev_r1))
            (enable dev_r1) (send_cmd lv_direct)) \<and>
   Disconnect \<notin>
     fst ` set (events_since fresh (fst (device_step stuck_at_start lv_direct fresh dev_r1))) \<and>
   device_loop stuck_at_start lv_direct fresh [dev_r1, dev_r2] =
     device_loop stuck_at_start lv_direct
       (fst (device_step stuck_at_start lv_direct fresh dev_r1)) [dev_r2]"
proof -
  have a: "\<not> use_jumpbox lv_direct" by code_simp
  have b: "device_step stuck_at_start lv_direct fresh dev_r1 =
             (fst (device_step stuck_at_start lv_direct fresh dev_r1),
              snd (device_step stuck_at_start lv_direct fresh dev_r1))"
    by simp
  have c: "first_failure
             (events_since fresh (fst (device_step stuck_at_start lv_direct fresh dev_r1))) =
             Some (StartCiscoSession ''en1'', InteractionError ''no prompt '')"
    by code_simp
  have d: "StartCiscoSession ''en1'' \<in>
             set (work_calls stuck_at_start
                    (trace fresh @ map ok (connect_calls lv_direct fresh dev_r1))
                    (enable dev_r1) (send_cmd lv_direct))"
    by (simp add: work_calls_def dev_r1_def)
  from direct_work_failure_no_disconnect [OF a b c d, of "[dev_r2]"] a c d
  show ?thesis by blast
qed

subsection \<open>One jump-box connection for a run of successes\<close>

text \<open>
  C4. With the jump box in use, take any stretch of the device list, started in any state,
  in which no call raises. Then the loop returns normally and \<open>connect_ssh\<close> to the jump
  box is called at most once: once when the stretch starts disconnected and holds a device
  the jump box can reach, not at all otherwise. Each such device ends with
  \<open>disconnect_via_jump\<close>, \<open>session.disconnect()\<close> is never called in the stretch, and
  \<open>jump_connected\<close> stays set once it is. Whatever happens in it, a turn that starts
  with \<open>jump_connected\<close> set makes no \<open>connect_ssh\<close> call. When the stretch is the whole
  loop of a run, entered after the failure log has been named, \<open>connect_loop\<close> (the part
  of \<open>script_main\<close> from \<open>jump_connected = False\<close> on) ends with \<open>session.disconnect()\<close>
  on the state the loop reached exactly when the list holds a device the jump box can
  reach, and \<open>connect_ssh\<close> is called once in it. Whenever the loop of a run returns
  normally, in whatever way, \<open>connect_loop\<close> then calls \<open>session.disconnect()\<close> exactly
  when \<open>jump_connected\<close> is set.
\<close>

theorem jump_box_connected_once:
  assumes "use_jumpbox lv"
      and "device_loop en lv st ds = (st', r)"
      and "first_failure (events_since st st') = None"
  shows "r = None \<and>
         jump_box_connects (events_since st st') =
           (if jump_connected st \<or> \<not> list_ex (attempted lv) ds then []
            else [ok (jump_box_call lv)]) \<and>
         length (tunnel_closes (events_since st st')) = length (filter (attempted lv) ds) \<and>
         Disconnect \<notin> fst ` set (events_since st st') \<and>
         jump_connected st' = (jump_connected st \<or> list_ex (attempted lv) ds) \<and>
         (jump_connected st \<longrightarrow>
            jump_box_connects (events_since st (fst (device_step en lv st d))) = []) \<and>
         (session_call en (log_name_call en) (st0\<lparr>jump_connected := False\<rparr>) = (st, None) \<and>
          lv = loop_locals en lv0 st0 \<and> ds = env_devices en \<longrightarrow>
            connect_loop en lv0 st0 =
              (if list_ex (attempted lv) ds then session_call en Disconnect st'
               else (st', None)) \<and>
            jump_box_connects (events_since st (fst (connect_loop en lv0 st0))) =
              (if list_ex (attempted lv) ds then [ok (jump_box_call lv)] else [])) \<and>
         (session_call en (log_name_call en) (st0\<lparr>jump_connected := False\<rparr>) = (s2, None) \<and>
          device_loop en (loop_locals en lv0 st0) s2 (env_devices en) = (s3, None) \<longrightarrow>
            connect_loop en lv0 st0 =
              (if jump_connected s3 then session_call en Disconnect s3 else (s3, None)))"
proof -
  from assms(3) have "first_failure (events_since st (fst (device_loop en lv st ds))) = None"
    unfolding assms(2) fst_conv .
  from jump_loop_success [OF assms(1) this]
  have a: "r = None \<and>
         jump_box_connects (events_since st st') =
           (if jump_connected st \<or> \<not> list_ex (attempted lv) ds then []
            else [ok (jump_box_call lv)]) \<and>
         length (tunnel_closes (events_since st st')) = length (filter (attempted lv) ds) \<and>
         Disconnect \<notin> fst ` set (events_since st st') \<and>
         jump_connected st' = (jump_connected st \<or> list_ex (attempted lv) ds)"
    unfolding assms(2) fst_conv snd_conv .
  have b: "jump_connected st \<longrightarrow>
            jump_box_connects (events_since st (fst (device_step en lv st d))) = []"
    using connected_step_no_jump_connect [OF assms(1)] by blast
  have c: "connect_loop en lv0 st0 =
              (if list_ex (attempted lv) ds then session_call en Disconnect st'
               else (st', None)) \<and>
            jump_box_connects (events_since st (fst (connect_loop en lv0 st0))) =
              (if list_ex (attempted lv) ds then [ok (jump_box_call lv)] else [])"
    if p: "session_call en (log_name_call en) (st0\<lparr>jump_connected := False\<rparr>) = (st, None)"
      and lv: "lv = loop_locals en lv0 st0" and ds: "ds = env_devices en"
  proof -
    from p have nf: "\<not> jump_connected st" by (auto simp: session_call_eq)
    from a have r: "r = None" by blast
    from a nf have fl: "jump_connected st' = list_ex (attempted lv) ds" by blast
    from a nf have jc: "jump_box_connects (events_since st st') =
        (if list_ex (attempted lv) ds then [ok (jump_box_call lv)] else [])"
      by auto
    from assms(2) have "device_loop en (loop_locals en lv0 st0) st (env_devices en) = (st', None)"
      unfolding lv ds r .
    from connect_loop_after [OF p this]
    have cl: "connect_loop en lv0 st0 = final_disconnect en st'" .
    from loop_trace [of en lv st ds]
    have t1: "trace st' = trace st @ events_since st st'"
      unfolding assms(2) fst_conv by blast
    note t = events_since_trans [OF t1 final_disconnect_events(2) [of en st']]
    have "jump_box_connects (events_since st' (fst (final_disconnect en st'))) = []"
      unfolding final_disconnect_events(1) by (simp add: jump_box_connects_def)
    then have "jump_box_connects (events_since st (fst (connect_loop en lv0 st0))) =
        (if list_ex (attempted lv) ds then [ok (jump_box_call lv)] else [])"
      unfolding cl t(1) jump_box_connects_append jc by simp
    moreover have "connect_loop en lv0 st0 =
        (if list_ex (attempted lv) ds then session_call en Disconnect st' else (st', None))"
      unfolding cl final_disconnect_def fl ..
    ultimately show ?thesis by blast
  qed
  have e: "connect_loop en lv0 st0 =
              (if jump_connected s3 then session_call en Disconnect s3 else (s3, None))"
    if "session_call en (log_name_call en) (st0\<lparr>jump_connected := False\<rparr>) = (s2, None)"
      and "device_loop en (loop_locals en lv0 st0) s2 (env_devices en) = (s3, None)"
    using connect_loop_after [OF that] by (simp add: final_disconnect_def)
  from a b c e show ?thesis by blast
qed

theorem jump_box_connected_once_witness:
  "use_jumpbox (loop_locals jump_env lv_jump fresh) \<and>
   first_failure
     (events_since
        (fst (session_call jump_env (log_name_call jump_env) (fresh\<lparr>jump_connected := False\<rparr>)))
        (fst (device_loop jump_env (loop_locals jump_env lv_jump fresh)
               (fst (session_call jump_env (log_name_call jump_env)
                       (fresh\<lparr>jump_connected := False\<rparr>)))
               (env_devices jump_env)))) = None \<and>
   jump_box_connects (events_since
        (fst (session_call jump_env (log_name_call jump_env) (fresh\<lparr>jump_connected := False\<rparr>)))
        (fst (connect_loop jump_env lv_jump fresh))) =
     [ok (jump_box_call (loop_locals jump_env lv_jump fresh))] \<and>
   connect_loop jump_env lv_jump fresh =
     session_call jump_env Disconnect
       (fst (device_loop jump_env (loop_locals jump_env lv_jump fresh)
               (fst (session_call jump_env (log_name_call jump_env)
                       (fresh\<lparr>jump_connected := False\<rparr>)))
               (env_devices jump_env)))"
proof -
  let ?lv = "loop_locals jump_env lv_jump fresh"
  let ?st = "fst (session_call jump_env (log_name_call jump_env)
                    (fresh\<lparr>jump_connected := False\<rparr>))"
  let ?ds = "env_devices jump_env"
  have a: "use_jumpbox ?lv" by code_simp
  have b: "device_loop jump_env ?lv ?st ?ds =
             (fst (device_loop jump_env ?lv ?st ?ds), snd (device_loop jump_env ?lv ?st ?ds))"
    by simp
  have c: "first_failure (events_since ?st (fst (device_loop jump_env ?lv ?st ?ds))) = None"
    by code_simp
  have p: "session_call jump_env (log_name_call jump_env) (fresh\<lparr>jump_connected := False\<rparr>) =
             (?st, None)"
    by (simp add: session_call_eq jump_env_def calm_def)
  have l: "list_ex (attempted ?lv) ?ds" by code_simp
  from jump_box_connected_once [OF a b c, of dev_r1 fresh lv_jump]
  have "session_call jump_env (log_name_call jump_env) (fresh\<lparr>jump_connected := False\<rparr>) =
          (?st, None) \<and> ?lv = loop_locals jump_env lv_jump fresh \<and> ?ds = env_devices jump_env
        \<longrightarrow>
        connect_loop jump_env lv_jump fresh =
          (if list_ex (attempted ?lv) ?ds
           then session_call jump_env Disconnect (fst (device_loop jump_env ?lv ?st ?ds))
           else (fst (device_loop jump_env ?lv ?st ?ds), None)) \<and>
        jump_box_connects (events_since ?st (fst (connect_loop jump_env lv_jump fresh))) =
          (if list_ex (attempted ?lv) ?ds then [ok (jump_box_call ?lv)] else [])"
    by blast
  with p have "connect_loop jump_env lv_jump fresh =
          (if list_ex (attempted ?lv) ?ds
           then session_call jump_env Disconnect (fst (device_loop jump_env ?lv ?st ?ds))
           else (fst (device_loop jump_env ?lv ?st ?ds), None))"
    and "jump_box_connects (events_since ?st (fst (connect_loop jump_env lv_jump fresh))) =
          (if list_ex (attempted ?lv) ?ds then [ok (jump_box_call ?lv)] else [])"
    by blast+
  then have "connect_loop jump_env lv_jump fresh =
          session_call jump_env Disconnect (fst (device_loop jump_env ?lv ?st ?ds))"
    and "jump_box_connects (events_since ?st (fst (connect_loop jump_env lv_jump fresh))) =
          [ok (jump_box_call ?lv)]"
    unfolding if_P [OF l] by blast+
  with a c show ?thesis by blast
qed

subsection \<open>The order of devices\<close>

text \<open>
  C8. Take a run that passes the launch check, loads a device list that is not empty, gets
  a command and names its failure log. Then \<open>script_main\<close> is the loop over \<open>env_devices\<close>
  followed by the final disconnect. The reports of the run, one for each device taken up,
  hold the calls of the turn, the log lines and the files it added; the trace and the
  failure log of the loop are the concatenations of the reports in list order, so that
  everything of turn \<open>i\<close> comes before anything of turn \<open>i + 1\<close>. There is at least one
  report, one for each device when the loop returns normally, never more than devices.
  Report \<open>i\<close> is complete for device \<open>i\<close> of the list: nothing happens for a device
  without a branch; otherwise the turn begins with a connection attempt, all its calls
  carry the data of that device, and either no call failed, the calls are the connection,
  the four calls of \<open>per_device_work\<close> and the closing disconnect, one file is added and
  nothing is logged, or a call failed and the failure line of that device is logged when
  the exception is one the loop catches. Every turn that is followed by another one is
  settled: no call failed in it, or the failure was caught and logged.
\<close>

theorem devices_in_list_order:
  assumes "\<not> env_connected en"
      and "env_devices en \<noteq> []"
      and "env_prompt en ''Enter the command to capture on each device.'' False \<noteq> []"
      and "env_raises en (trace (fst (before_loop en st))) (log_name_call en) = None"
  shows "script_main en st =
           and_then (device_loop en (run_locals en st) (run_start en st) (env_devices en))
             (final_disconnect en) \<and>
         trace (fst (device_loop en (run_locals en st) (run_start en st) (env_devices en))) =
           trace (run_start en st) @ concat (map fst (run_reports en st)) \<and>
         faillog (fst (device_loop en (run_locals en st) (run_start en st) (env_devices en))) =
           faillog (run_start en st) @ concat (map (\<lambda>rep. fst (snd rep)) (run_reports en st)) \<and>
         0 < length (run_reports en st) \<and>
         length (run_reports en st) \<le> length (env_devices en) \<and>
         (snd (device_loop en (run_locals en st) (run_start en st) (env_devices en)) = None
            \<longrightarrow> length (run_reports en st) = length (env_devices en)) \<and>
         (\<forall>i < length (run_reports en st).
            turn_complete (run_locals en st) (env_devices en ! i) (run_reports en st ! i)) \<and>
         (\<forall>i. Suc i < length (run_reports en st) \<longrightarrow>
            turn_settled (run_reports en st ! i))"
proof -
  let ?lv = "run_locals en st" and ?s0 = "run_start en st" and ?ds = "env_devices en"
  from loop_trace [of en ?lv ?s0 ?ds]
  have "trace (fst (device_loop en ?lv ?s0 ?ds)) = trace ?s0 @ concat (turns en ?lv ?s0 ?ds)"
    by metis
  then have a: "trace (fst (device_loop en ?lv ?s0 ?ds)) =
      trace ?s0 @ concat (map fst (run_reports en st))"
    unfolding run_reports_def reports_turns .
  have b: "faillog (fst (device_loop en ?lv ?s0 ?ds)) =
      faillog ?s0 @ concat (map (\<lambda>rep. fst (snd rep)) (run_reports en st))"
    unfolding run_reports_def by (rule reports_log)
  have len: "length (run_reports en st) = length (turns en ?lv ?s0 ?ds)"
    unfolding run_reports_def reports_turns [symmetric] by simp
  from turns_length [of en ?lv ?s0 ?ds]
  have c: "length (run_reports en st) \<le> length ?ds"
    and d: "snd (device_loop en ?lv ?s0 ?ds) = None \<longrightarrow>
        length (run_reports en st) = length ?ds"
    unfolding len by blast+
  obtain d' ds' where ds: "?ds = d' # ds'" using assms(2) by (cases ?ds) auto
  have e: "0 < length (run_reports en st)"
    unfolding run_reports_def ds by (simp split: prod.splits option.splits)
  have f: "\<forall>i < length (run_reports en st).
      turn_complete ?lv (?ds ! i) (run_reports en st ! i)"
    unfolding run_reports_def using reports_complete by blast
  have g: "\<forall>i. Suc i < length (run_reports en st) \<longrightarrow>
      turn_settled (run_reports en st ! i)"
    unfolding run_reports_def using reports_settled by blast
  from script_main_loop [OF assms] a b c d e f g show ?thesis by blast
qed

theorem devices_in_list_order_witness:
  "\<not> env_connected stuck_at_start \<and>
   env_devices stuck_at_start = [dev_r1, dev_r2] \<and>
   env_prompt stuck_at_start ''Enter the command to capture on each device.'' False =
     ''show version'' \<and>
   env_raises stuck_at_start (trace (fst (before_loop stuck_at_start fresh)))
     (log_name_call stuck_at_start) = None \<and>
   snd (device_loop stuck_at_start (run_locals stuck_at_start fresh)
          (run_start stuck_at_start fresh) (env_devices stuck_at_start)) = None \<and>
   length (run_reports stuck_at_start fresh) = 2 \<and>
   turn_complete (run_locals stuck_at_start fresh) dev_r1
     (run_reports stuck_at_start fresh ! 0) \<and>
   turn_complete (run_locals stuck_at_start fresh) dev_r2
     (run_reports stuck_at_start fresh ! 1) \<and>
   turn_settled (run_reports stuck_at_start fresh ! 0) \<and>
   run_reports stuck_at_start fresh ! 0 =
     ([ok (Connect ''r1'' ''admin'' ''pw1'' ''SSH2''),
       (StartCiscoSession ''en1'', Some (InteractionError ''no prompt ''))],
      [(''m_save_output-LOG-xxxxx.txt'', ''Failure on r1: no prompt'' @ newline)],
      []) \<and>
   run_reports stuck_at_start fresh ! 1 =
     ([ok (Connect ''r2'' ''admin'' ''pw2'' ''Telnet''), ok (StartCiscoSession ''en2''),
       ok (CreateOutputFilename ''show version'' None),
       ok (WriteOutputToFile ''show version'' ''show version-xxxxxxxxxx.txt''),
       ok EndCiscoSession, ok Disconnect],
      [],
      [(''show version-xxxxxxxxxx.txt'', ''show version'')]) \<and>
   script_main stuck_at_start fresh =
     (fst (device_loop stuck_at_start (run_locals stuck_at_start fresh)
             (run_start stuck_at_start fresh) (env_devices stuck_at_start)), None)"
proof -
  let ?lv = "run_locals stuck_at_start fresh"
  let ?loop = "device_loop stuck_at_start (run_locals stuck_at_start fresh)
                 (run_start stuck_at_start fresh) (env_devices stuck_at_start)"
  have a: "\<not> env_connected stuck_at_start" by (simp add: stuck_at_start_def calm_def)
  have dv: "env_devices stuck_at_start = [dev_r1, dev_r2]"
    by (simp add: stuck_at_start_def calm_def)
  have b: "env_devices stuck_at_start \<noteq> []" unfolding dv by simp
  have p: "env_prompt stuck_at_start ''Enter the command to capture on each device.'' False =
             ''show version''"
    by (simp add: stuck_at_start_def calm_def operator_def)
  have c: "env_prompt stuck_at_start ''Enter the command to capture on each device.'' False \<noteq> []"
    unfolding p by simp
  have d: "env_raises stuck_at_start (trace (fst (before_loop stuck_at_start fresh)))
             (log_name_call stuck_at_start) = None"
    by (simp add: stuck_at_start_def calm_def raise_at_def log_name_call_def)
  have n: "snd ?loop = None" by code_simp
  have r0: "run_reports stuck_at_start fresh ! 0 =
     ([ok (Connect ''r1'' ''admin'' ''pw1'' ''SSH2''),
       (StartCiscoSession ''en1'', Some (InteractionError ''no prompt ''))],
      [(''m_save_output-LOG-xxxxx.txt'', ''Failure on r1: no prompt'' @ newline)],
      [])"
    by code_simp
  have r1: "run_reports stuck_at_start fresh ! 1 =
     ([ok (Connect ''r2'' ''admin'' ''pw2'' ''Telnet''), ok (StartCiscoSession ''en2''),
       ok (CreateOutputFilename ''show version'' None),
       ok (WriteOutputToFile ''show version'' ''show version-xxxxxxxxxx.txt''),
       ok EndCiscoSession, ok Disconnect],
      [],
      [(''show version-xxxxxxxxxx.txt'', ''show version'')])"
    by code_simp
  have j: "\<not> jump_connected (fst ?loop)" by code_simp
  note t = devices_in_list_order [OF a b c d]
  from t n have "length (run_reports stuck_at_start fresh) = length (env_devices stuck_at_start)"
    by blast
  then have len: "length (run_reports stuck_at_start fresh) = 2" unfolding dv by simp
  from t have all: "i < length (run_reports stuck_at_start fresh) \<Longrightarrow>
      turn_complete ?lv (env_devices stuck_at_start ! i) (run_reports stuck_at_start fresh ! i)"
    for i by blast
  have l0: "0 < length (run_reports stuck_at_start fresh)"
    and l1: "1 < length (run_reports stuck_at_start fresh)"
    unfolding len by simp_all
  have e0: "env_devices stuck_at_start ! 0 = dev_r1"
    and e1: "env_devices stuck_at_start ! 1 = dev_r2"
    unfolding dv by simp_all
  from all [OF l0] have c0: "turn_complete ?lv dev_r1 (run_reports stuck_at_start fresh ! 0)"
    unfolding e0 .
  from all [OF l1] have c1: "turn_complete ?lv dev_r2 (run_reports stuck_at_start fresh ! 1)"
    unfolding e1 .
  from t have "Suc 0 < length (run_reports stuck_at_start fresh) \<longrightarrow>
      turn_settled (run_reports stuck_at_start fresh ! 0)"
    by blast
  then have s0: "turn_settled (run_reports stuck_at_start fresh ! 0)"
    unfolding len by simp
  from t have "script_main stuck_at_start fresh = and_then ?loop (final_disconnect stuck_at_start)"
    by blast
  also have "\<dots> = and_then (fst ?loop, None) (final_disconnect stuck_at_start)"
    using n by (metis prod.collapse)
  also have "\<dots> = (fst ?loop, None)"
    using j by (simp add: final_disconnect_def)
  finally have m: "script_main stuck_at_start fresh = (fst ?loop, None)" .
  from a dv p d n len c0 c1 s0 r0 r1 m show ?thesis by blast
qed

subsection \<open>The jump-box settings\<close>

text \<open>
  C7. On a run that reaches the jump-box section (session not connected, a device list and
  a command that are not empty, \<open>use_jumpbox\<close> set), the prompts and settings writes of
  the whole run are: the command prompt; for each of host, user name and prompt ending
  whose stored value is missing, a prompt followed by the write-back of the answer, and no
  prompt and no write when the value is stored; and, between user name and prompt ending,
  the password prompt, in every run. No write carries the password, which stays in the
  local variable \<open>j_password\<close>. At the end of the run every setting has its old value,
  except the missing ones among the three, which hold the operator's answers.
\<close>

theorem jump_box_settings_resolved:
  assumes "\<not> env_connected en"
      and "env_devices en \<noteq> []"
      and "env_prompt en ''Enter the command to capture on each device.'' False \<noteq> []"
      and "env_use_jumpbox en"
  shows "dialogue (events_since st (fst (script_main en st))) =
           PromptWindow ''Enter the command to capture on each device.'' False #
           jump_box_dialogue en st \<and>
         map_of (settings (fst (script_main en st))) k = jump_box_settings en st k \<and>
         j_password (snd (jump_box_section en cmd st)) =
           env_prompt en (''JUMPBOX: Enter the PASSWORD for '' @ jumpbox_user_of en st) True"
proof -
  let ?cmd = "env_prompt en ''Enter the command to capture on each device.'' False"
  let ?five = "[(GetMainSession, None), (IsConnected, None), (ImportDeviceList, None),
                (PromptWindow ''Enter the command to capture on each device.'' False, None),
                (SettingsGetBoolean ''Global'' ''use_jumpbox'', None)]"
  let ?s4 = "st\<lparr>trace := trace st @ ?five\<rparr>"
  let ?j = "jump_box_section en ?cmd ?s4"
  have sm: "script_main en st = connect_loop en (snd ?j) (fst ?j)"
    using assms by (simp add: script_main_def Let_def note_call_def split: prod.splits)
  have se4: "settings ?s4 = settings st" by simp
  from jump_box_section_effect(1) [of en ?cmd ?s4] obtain e1 where
    t1: "trace (fst ?j) = trace ?s4 @ e1" and d1: "dialogue e1 = jump_box_dialogue en st"
    unfolding same_settings(1) [OF se4] by blast
  have m1: "map_of (settings (fst ?j)) k = jump_box_settings en st k"
    using jump_box_section_effect(2) [of en ?cmd ?s4 k]
    unfolding same_settings(2) [OF se4] .
  from session_only_connect_loop [of "fst ?j" en "snd ?j"] obtain e2 where
    t2: "trace (fst (script_main en st)) = trace (fst ?j) @ e2" and d2: "dialogue e2 = []"
    and se: "settings (fst (script_main en st)) = settings (fst ?j)"
    unfolding sm session_only_iff by blast
  have "trace (fst (script_main en st)) = trace st @ (?five @ e1 @ e2)"
    unfolding t2 t1 by simp
  then have "events_since st (fst (script_main en st)) = ?five @ e1 @ e2"
    by (rule events_since_append)
  then have "dialogue (events_since st (fst (script_main en st))) =
               PromptWindow ''Enter the command to capture on each device.'' False #
               jump_box_dialogue en st"
    using d1 d2 by (simp add: dialogue_append) (simp add: dialogue_def)
  moreover have "map_of (settings (fst (script_main en st))) k = jump_box_settings en st k"
    unfolding se by (rule m1)
  ultimately show ?thesis
    using jump_box_section_effect(3) [of en cmd st] by blast
qed

theorem jump_box_settings_resolved_witness:
  "\<not> env_connected jump_env \<and> env_devices jump_env \<noteq> [] \<and>
   env_prompt jump_env ''Enter the command to capture on each device.'' False \<noteq> [] \<and>
   env_use_jumpbox jump_env \<and>
   dialogue (events_since half_configured (fst (script_main jump_env half_configured))) =
     [PromptWindow ''Enter the command to capture on each device.'' False,
      PromptWindow ''Enter the HOSTNAME or IP for the jumpbox'' False,
      SettingsUpdate ''Global'' ''jumpbox_host'' ''jump1'',
      PromptWindow ''JUMPBOX: Enter the PASSWORD for netops'' True,
      PromptWindow ''Enter the last character of the jumpbox CLI prompt'' False,
      SettingsUpdate ''Global'' ''jumpbox_prompt_end'' ''$''] \<and>
   map_of (settings (fst (script_main jump_env half_configured)))
     (''Global'', ''jumpbox_user'') = Some ''netops''"
proof -
  have a: "\<not> env_connected jump_env" by code_simp
  have b: "env_devices jump_env \<noteq> []" by code_simp
  have c: "env_prompt jump_env ''Enter the command to capture on each device.'' False \<noteq> []"
    by code_simp
  have d: "env_use_jumpbox jump_env" by code_simp
  have e: "PromptWindow ''Enter the command to capture on each device.'' False #
           jump_box_dialogue jump_env half_configured =
     [PromptWindow ''Enter the command to capture on each device.'' False,
      PromptWindow ''Enter the HOSTNAME or IP for the jumpbox'' False,
      SettingsUpdate ''Global'' ''jumpbox_host'' ''jump1'',
      PromptWindow ''JUMPBOX: Enter the PASSWORD for netops'' True,
      PromptWindow ''Enter the last character of the jumpbox CLI prompt'' False,
      SettingsUpdate ''Global'' ''jumpbox_prompt_end'' ''$'']"
    by code_simp
  have f: "jump_box_settings jump_env half_configured (''Global'', ''jumpbox_user'') =
             Some ''netops''"
    by code_simp
  from jump_box_settings_resolved [OF a b c d, of half_configured
      "(''Global'', ''jumpbox_user'')" "''show version''"]
  have "dialogue (events_since half_configured (fst (script_main jump_env half_configured))) =
     [PromptWindow ''Enter the command to capture on each device.'' False,
      PromptWindow ''Enter the HOSTNAME or IP for the jumpbox'' False,
      SettingsUpdate ''Global'' ''jumpbox_host'' ''jump1'',
      PromptWindow ''JUMPBOX: Enter the PASSWORD for netops'' True,
      PromptWindow ''Enter the last character of the jumpbox CLI prompt'' False,
      SettingsUpdate ''Global'' ''jumpbox_prompt_end'' ''$'']"
    and "map_of (settings (fst (script_main jump_env half_configured)))
           (''Global'', ''jumpbox_user'') = Some ''netops''"
    unfolding e f by blast+
  with a b c d show ?thesis by blast
qed

end
